theory Spec2Isabelle
  imports Complex_Main "HOL-Library.Multiset" "HOL-Library.Log_Nat" "HOL-Library.Sublist"
begin

section \<open>JavaScript numbers\<close>

text \<open>
  A JavaScript number is a double of IEEE 754 (binary64). A number is a real number
  here, and \<open>fl\<close> is the rounding of an exact result to the nearest double, ties to
  the even significand, which every arithmetic operation of JavaScript ends with.

  Every double is an integer multiple of \<open>tiny\<close>, the smallest positive double
  \<open>1 / 2 ^ 1074\<close>. A double has 53 significant bits: from \<open>2 ^ 52 * 2 ^ k * tiny\<close> to
  \<open>2 ^ 53 * 2 ^ k * tiny\<close> the doubles are \<open>2 ^ k * tiny\<close> apart, and below
  \<open>2 ^ 53 * tiny\<close> they are \<open>tiny\<close> apart (the subnormal numbers and the first
  binade). \<open>spacing x\<close> is this \<open>k\<close> for the magnitude of \<open>x\<close>, read off the bit
  length of \<open>\<bar>x\<bar> / tiny\<close>.
  The numbers of the store stay below 128, far from the largest double, so the
  overflow to \<open>Infinity\<close> is not part of the model.
\<close>

definition round_even :: "real \<Rightarrow> int" where
  "round_even x =
     (let f = \<lfloor>x\<rfloor> in
        if x - of_int f < 1 / 2 then f
        else if 1 / 2 < x - of_int f then f + 1
        else if even f then f else f + 1)"

definition tiny :: real where
  "tiny = 1 / 2 ^ 1074"

definition spacing :: "real \<Rightarrow> nat" where
  "spacing x = nat (bitlen \<lfloor>\<bar>x\<bar> / tiny\<rfloor>) - 53"

definition fl :: "real \<Rightarrow> real" where
  "fl x = sgn x * (of_int (round_even (\<bar>x\<bar> / tiny / 2 ^ spacing x)) * 2 ^ spacing x * tiny)"

section \<open>The telemetry store (class ServerStatus)\<close>

text \<open>
  The store keeps one \<open>ServerData\<close> object per server in a JavaScript \<open>Map\<close>.
  A \<open>Map\<close> iterates in insertion order, so it is an association list here.
  \<open>Math.random()\<close> is a source of numbers in \<open>[0,1)\<close>: the stream \<open>rnd\<close> lists the
  values it returns, call after call, and the position \<open>n\<close> counts the calls made
  so far.
\<close>

datatype status = Normal | Warning | Error

record ServerData =
  server_id :: string
  temperature :: real
  cpuUsage :: real
  memoryUsage :: real
  status :: status

type_synonym rng = "nat \<Rightarrow> real"

record ServerStatus =
  servers :: "(string \<times> ServerData) list"

text \<open>\<open>Map.prototype.set\<close>: an existing key keeps its place, a new key goes last.\<close>

fun map_set :: "('k \<times> 'v) list \<Rightarrow> 'k \<Rightarrow> 'v \<Rightarrow> ('k \<times> 'v) list" where
  "map_set [] k v = [(k, v)]"
| "map_set ((k', v') # m) k v =
     (if k' = k then (k, v) # m else (k', v') # map_set m k v)"

text \<open>A number inside a template literal: its decimal digits.\<close>

definition digit :: "nat \<Rightarrow> char" where
  "digit d = ''0123456789'' ! d"

function string_of_nat :: "nat \<Rightarrow> string" where
  "string_of_nat n =
     (if n < 10 then [digit n] else string_of_nat (n div 10) @ [digit (n mod 10)])"
  by pat_completeness auto
termination
  by (relation "measure (\<lambda>n. n)") auto

declare string_of_nat.simps [simp del]

definition serverId :: "nat \<Rightarrow> nat \<Rightarrow> string" where
  "serverId rack server = ''rack'' @ string_of_nat rack @ ''-server'' @ string_of_nat server"

text \<open>
  \<open>initializeServers\<close>: the inner loop over the five servers of a rack, and the outer
  loop over the nine racks. Each record takes three fresh values of \<open>Math.random()\<close>.
  An initial value is the result of two operations, a product and a sum, each
  rounded to a double.
\<close>

function initServerLoop ::
    "rng \<Rightarrow> nat \<Rightarrow> nat \<Rightarrow> (string \<times> ServerData) list \<times> nat \<Rightarrow> (string \<times> ServerData) list \<times> nat" where
  "initServerLoop rnd rack server (m, n) =
     (if server < 5 then
        initServerLoop rnd rack (Suc server)
          (map_set m (serverId rack server)
             \<lparr> server_id = serverId rack server,
               temperature = fl (fl (rnd n * 20) + 25),
               cpuUsage = fl (fl (rnd (n + 1) * 60) + 20),
               memoryUsage = fl (fl (rnd (n + 2) * 50) + 30),
               status = Normal \<rparr>,
           n + 3)
      else (m, n))"
  by pat_completeness auto
termination
  by (relation "measure (\<lambda>(rnd, rack, server, st). 5 - server)") auto

declare initServerLoop.simps [simp del]

function initRackLoop ::
    "rng \<Rightarrow> nat \<Rightarrow> (string \<times> ServerData) list \<times> nat \<Rightarrow> (string \<times> ServerData) list \<times> nat" where
  "initRackLoop rnd rack st =
     (if rack < 9 then initRackLoop rnd (Suc rack) (initServerLoop rnd rack 0 st) else st)"
  by pat_completeness auto
termination
  by (relation "measure (\<lambda>(rnd, rack, st). 9 - rack)") auto

declare initRackLoop.simps [simp del]

text \<open>The constructor: an empty map, then \<open>initializeServers\<close>.\<close>

definition initializeServers :: "rng \<Rightarrow> nat \<Rightarrow> ServerStatus \<times> nat" where
  "initializeServers rnd n =
     (case initRackLoop rnd 0 ([], n) of (m, n') \<Rightarrow> (\<lparr> servers = m \<rparr>, n'))"

text \<open>
  The body of the \<open>forEach\<close> callback of \<open>updateServerStatus\<close>, for the three values
  \<open>r1\<close>, \<open>r2\<close>, \<open>r3\<close> that its three calls of \<open>Math.random()\<close> return. The
  increments and the sums of the body are the exact ones, as the specification words
  the step; \<open>Math.max\<close>, \<open>Math.min\<close> and the comparisons with the thresholds, which
  bound the metrics and decide the status, are exact on doubles.
\<close>

definition updateServer :: "real \<Rightarrow> real \<Rightarrow> real \<Rightarrow> ServerData \<Rightarrow> ServerData" where
  "updateServer r1 r2 r3 server =
     (let server = server\<lparr> temperature := temperature server + (r1 - 0.5) * 2 \<rparr>;
          server = server\<lparr> temperature := max 25 (min 45 (temperature server)) \<rparr>;
          server = server\<lparr> cpuUsage := cpuUsage server + (r2 - 0.5) * 10 \<rparr>;
          server = server\<lparr> cpuUsage := max 20 (min 95 (cpuUsage server)) \<rparr>;
          server = server\<lparr> memoryUsage := memoryUsage server + (r3 - 0.5) * 5 \<rparr>;
          server = server\<lparr> memoryUsage := max 30 (min 95 (memoryUsage server)) \<rparr>
      in if temperature server > 42 \<or> cpuUsage server > 90 \<or> memoryUsage server > 90
         then server\<lparr> status := Error \<rparr>
         else if temperature server > 38 \<or> cpuUsage server > 75 \<or> memoryUsage server > 75
         then server\<lparr> status := Warning \<rparr>
         else server\<lparr> status := Normal \<rparr>)"

text \<open>\<open>this.servers.forEach\<close>: the entries in insertion order, the keys untouched.\<close>

fun forEachServer :: "rng \<Rightarrow> nat \<Rightarrow> (string \<times> ServerData) list \<Rightarrow> (string \<times> ServerData) list \<times> nat" where
  "forEachServer rnd n [] = ([], n)"
| "forEachServer rnd n ((k, server) # rest) =
     (case forEachServer rnd (n + 3) rest of
        (rest', n') \<Rightarrow> ((k, updateServer (rnd n) (rnd (n + 1)) (rnd (n + 2)) server) # rest', n'))"

definition updateServerStatus :: "rng \<Rightarrow> nat \<Rightarrow> ServerStatus \<Rightarrow> ServerStatus \<times> nat" where
  "updateServerStatus rnd n st =
     (case forEachServer rnd n (servers st) of (m, n') \<Rightarrow> (st\<lparr> servers := m \<rparr>, n'))"

text \<open>
  \<open>getServerData\<close>: \<open>Map.prototype.get\<close>, which returns \<open>undefined\<close> (here \<open>None\<close>) for
  a key the map does not hold. The store is returned beside the result, as the call
  leaves it.
\<close>

definition getServerData :: "ServerStatus \<Rightarrow> string \<Rightarrow> ServerData option \<times> ServerStatus" where
  "getServerData st k = (map_of (servers st) k, st)"

definition getAllServers :: "ServerStatus \<Rightarrow> (string \<times> ServerData) list" where
  "getAllServers st = servers st"

text \<open>\<open>k\<close> calls of \<open>updateServerStatus\<close>, one after the other.\<close>

fun ticks :: "rng \<Rightarrow> nat \<Rightarrow> ServerStatus \<times> nat \<Rightarrow> ServerStatus \<times> nat" where
  "ticks rnd 0 sn = sn"
| "ticks rnd (Suc k) (st, n) = ticks rnd k (updateServerStatus rnd n st)"

text \<open>
  The threshold table of the specification, in its words: the most severe matching
  rule decides.
\<close>

definition threshold_status :: "real \<Rightarrow> real \<Rightarrow> real \<Rightarrow> status" where
  "threshold_status t c m =
     (if t > 42 \<or> c > 90 \<or> m > 90 then Error
      else if t > 38 \<or> c > 75 \<or> m > 75 then Warning
      else Normal)"

definition consistent :: "ServerData \<Rightarrow> bool" where
  "consistent s \<longleftrightarrow> status s = threshold_status (temperature s) (cpuUsage s) (memoryUsage s)"

definition clamped :: "ServerData \<Rightarrow> bool" where
  "clamped s \<longleftrightarrow>
     25 \<le> temperature s \<and> temperature s \<le> 45 \<and>
     20 \<le> cpuUsage s \<and> cpuUsage s \<le> 95 \<and>
     30 \<le> memoryUsage s \<and> memoryUsage s \<le> 95"

section \<open>The scene and the pointer handlers (class DataCenter)\<close>

text \<open>
  The scene graph of three.js is a tree: every object has a list of children and at
  most one parent. An object is referred to by its position in the tree, the list of
  child indices that leads to it from the \<open>DataCenter\<close> group itself (the root, the
  empty list). The scene graph is built once, by the constructor; the handlers never
  add or remove an object, so a position names the same object throughout. Two
  references are the same object (\<open>===\<close>) when they are the same position, and the
  parent of an object is its position without the last index; the root has none.

  A node records what the handlers read: whether the object is a \<open>THREE.Mesh\<close>, a
  \<open>THREE.Group\<close> or another \<open>Object3D\<close>, the entries \<open>id\<close>, \<open>isRackCase\<close> and
  \<open>rackIndex\<close> of its \<open>userData\<close>, and the material it is created with. The entries
  \<open>brand\<close> and \<open>type\<close> of \<open>userData\<close> only label the markup of the info panel and
  are left out.

  Every mesh of the source is created with a material object of its own (a \<open>new\<close>
  material, or a \<open>clone()\<close> of the heat map material), so the materials, as the
  handlers change them, are kept in a store keyed by the reference of the owning
  object. A material holds the properties the handlers touch: \<open>color\<close> (absent on a
  \<open>ShaderMaterial\<close>), \<open>opacity\<close>, \<open>wireframe\<close> and the value of the uniform
  \<open>temperature\<close> (absent where the material has no \<open>uniforms\<close>).
\<close>

datatype js_error = TypeError

datatype kind = Mesh | Group | Other

record userData =
  ud_id :: "string option"
  ud_isRackCase :: bool
  ud_rackIndex :: "nat option"

record material =
  color :: "nat option"
  opacity :: real
  wireframe :: bool
  uniforms :: "real option"

datatype obj = Obj (kind: kind) (userData: userData) (material: "material option") (children: "obj list")

type_synonym ref = "nat list"

fun lookup :: "obj \<Rightarrow> ref \<Rightarrow> obj option" where
  "lookup t [] = Some t"
| "lookup t (i # p) = (if i < length (children t) then lookup (children t ! i) p else None)"

definition parent :: "ref \<Rightarrow> ref option" where
  "parent p = (if p = [] then None else Some (butlast p))"

text \<open>\<open>Object3D.traverse\<close>: the object, then its descendants, child by child.\<close>

fun traverse :: "obj \<Rightarrow> ref list"
  and traverse_children :: "nat \<Rightarrow> obj list \<Rightarrow> ref list" where
  "traverse (Obj k u m cs) = [] # traverse_children 0 cs"
| "traverse_children i [] = []"
| "traverse_children i (c # cs) = map ((#) i) (traverse c) @ traverse_children (Suc i) cs"

text \<open>A string of \<open>userData\<close> in a condition: \<open>undefined\<close> and the empty string are falsy.\<close>

definition truthy :: "string option \<Rightarrow> bool" where
  "truthy v = (case v of None \<Rightarrow> False | Some x \<Rightarrow> x \<noteq> [])"

text \<open>
  The content of the \<open>#info\<close> element, as the view the markup shows: the page's own
  markup before any handler has written, the legend of \<open>showDefaultInfo\<close>, the
  roster of \<open>showRackInfo\<close> (the rack index and the records found for its five
  identifiers) or the record of \<open>showServerInfo\<close>.
\<close>

datatype panel =
    PageMarkup
  | Legend
  | RackList "nat option" "ServerData list"
  | ServerDetail ServerData

text \<open>
  The fields of the class. \<open>info\<close> is \<open>None\<close> when the page has no element with the
  id \<open>info\<close> (\<open>getElementById\<close> returns \<open>null\<close> and the \<open>show\<close> functions do nothing).
\<close>

record DataCenter =
  serverStatus :: ServerStatus
  servers_dc :: "(string \<times> ref) list"
  racks :: "(nat \<times> ref) list"
  scene :: obj
  materials :: "ref \<Rightarrow> material option"
  selectedServer :: "ref option"
  hoveredRack :: "ref option"
  hoveredServer :: "ref option"
  info :: "panel option"

subsection \<open>The constructor\<close>

definition emptyUserData :: userData where
  "emptyUserData = \<lparr> ud_id = None, ud_isRackCase = False, ud_rackIndex = None \<rparr>"

text \<open>\<open>MeshStandardMaterial\<close>, \<open>MeshBasicMaterial\<close>, \<open>MeshPhongMaterial\<close>: a colour, no uniforms.\<close>

definition colorMaterial :: "nat \<Rightarrow> real \<Rightarrow> material" where
  "colorMaterial c a = \<lparr> color = Some c, opacity = a, wireframe = False, uniforms = None \<rparr>"

text \<open>\<open>createHeatmapMaterial\<close>: a \<open>ShaderMaterial\<close> whose uniform \<open>temperature\<close> is 0.\<close>

definition createHeatmapMaterial :: material where
  "createHeatmapMaterial = \<lparr> color = None, opacity = 1, wireframe = False, uniforms = Some 0 \<rparr>"

text \<open>\<open>this.add(child)\<close>.\<close>

definition add :: "obj \<Rightarrow> obj \<Rightarrow> obj" where
  "add child t = Obj (kind t) (userData t) (material t) (children t @ [child])"

text \<open>\<open>createFloor\<close>: the floor (colour 0x444444), the grid helper and the base (0x222222).\<close>

definition createFloor :: "obj \<Rightarrow> obj" where
  "createFloor t =
     add (Obj Mesh emptyUserData (Some (colorMaterial 2236962 1)) [])
       (add (Obj Other emptyUserData (Some (colorMaterial 16777215 1)) [])
          (add (Obj Mesh emptyUserData (Some (colorMaterial 4473924 0.8)) []) t))"

text \<open>
  \<open>infrastructureTypes\<close>, by colour (0x4287f5, 0xff4444, 0x42f5aa, 0xf542f5), and
  \<open>createPipe\<close>, which adds one mesh of that colour and the given opacity.
\<close>

definition infrastructureTypes :: "nat list" where
  "infrastructureTypes = [4360181, 16729156, 4388266, 16073461]"

definition createPipe :: "nat \<Rightarrow> real \<Rightarrow> obj \<Rightarrow> obj" where
  "createPipe infrastructure a t = add (Obj Mesh emptyUserData (Some (colorMaterial infrastructure a)) []) t"

text \<open>
  \<open>createMainInfrastructure\<close>: for each of the three north-south paths and then each
  of the three east-west paths, one pipe per infrastructure type.
\<close>

definition createMainInfrastructure :: "obj \<Rightarrow> obj" where
  "createMainInfrastructure t =
     fold (\<lambda>path t. fold (\<lambda>infra t. createPipe infra 1 t) infrastructureTypes t) [0..<3]
       (fold (\<lambda>path t. fold (\<lambda>infra t. createPipe infra 1 t) infrastructureTypes t) [0..<3] t)"

text \<open>
  \<open>createRackConnections\<close>: two pipes per infrastructure type for every rack the map
  \<open>racks\<close> holds. The constructor calls it before \<open>createRacks\<close>, when the map is
  still empty.
\<close>

definition createRackConnections :: "(nat \<times> ref) list \<Rightarrow> obj \<Rightarrow> obj" where
  "createRackConnections rs t =
     fold (\<lambda>rackIndex t.
             case map_of rs rackIndex of
               None \<Rightarrow> t
             | Some rack \<Rightarrow>
                 fold (\<lambda>infra t. createPipe infra 0.5 (createPipe infra 0.5 t)) infrastructureTypes t)
       [0..<9] t"

text \<open>\<open>serverBrands\<close>, by colour (0x0085c3, 0x0096d6, 0xff6b00, 0x00a0e9, 0xff0000).\<close>

definition serverBrands :: "nat list" where
  "serverBrands = [34243, 38614, 16739072, 41193, 16711680]"

text \<open>
  The server group that \<open>createRack\<close> builds for the slot \<open>i\<close>: the server mesh with
  its identifier and its clone of the heat map material, the indicator light (green,
  0x00ff00) as the only child of the server mesh, then the brand panel, the label and
  the vents as further children of the group.
\<close>

definition createServerGroup :: "nat \<Rightarrow> nat \<Rightarrow> obj" where
  "createServerGroup rackIndex i =
     Obj Group emptyUserData None
       [Obj Mesh (emptyUserData\<lparr> ud_id := Some (serverId rackIndex i) \<rparr>) (Some createHeatmapMaterial)
          [Obj Mesh emptyUserData (Some (colorMaterial 65280 1)) []],
        Obj Mesh emptyUserData (Some (colorMaterial (serverBrands ! i) 1)) [],
        Obj Mesh emptyUserData (Some (colorMaterial 16777215 0.8)) [],
        Obj Mesh emptyUserData (Some (colorMaterial 2236962 1)) []]"

text \<open>
  \<open>createRack\<close>: the rack group with its index, the rack case (0x333333) as first
  child, then the five server groups. The second component lists what the loop
  registers in \<open>this.servers\<close>: each identifier with the position of its server mesh
  inside the rack.
\<close>

definition createRack :: "nat \<Rightarrow> obj \<times> (string \<times> ref) list" where
  "createRack rackIndex =
     (Obj Group (emptyUserData\<lparr> ud_rackIndex := Some rackIndex \<rparr>) None
        (Obj Mesh (emptyUserData\<lparr> ud_isRackCase := True \<rparr>) (Some (colorMaterial 3355443 1)) []
         # map (createServerGroup rackIndex) [0..<5]),
      map (\<lambda>i. (serverId rackIndex i, [Suc i, 0])) [0..<5])"

text \<open>
  \<open>createRacks\<close>: one rack per position, registered in \<open>this.racks\<close> and added to the
  scene; its servers are registered in \<open>this.servers\<close> under their references in the
  scene.
\<close>

definition createRacksStep :: "nat \<Rightarrow> DataCenter \<Rightarrow> DataCenter" where
  "createRacksStep rackIndex s =
     (case createRack rackIndex of
        (rack, registered) \<Rightarrow>
          s\<lparr> servers_dc := fold (\<lambda>(k, p) m. map_set m k (length (children (scene s)) # p)) registered (servers_dc s),
             racks := map_set (racks s) rackIndex [length (children (scene s))],
             scene := add rack (scene s) \<rparr>)"

definition createRacks :: "DataCenter \<Rightarrow> DataCenter" where
  "createRacks s = fold createRacksStep [0..<9] s"

text \<open>The material an object of the scene is created with.\<close>

definition materialAt :: "obj \<Rightarrow> ref \<Rightarrow> material option" where
  "materialAt t p = (case lookup t p of None \<Rightarrow> None | Some n \<Rightarrow> material n)"

text \<open>
  \<open>new DataCenter()\<close>, on a page that has an \<open>#info\<close> element or not: the telemetry
  store, the floor, the infrastructure, the racks.
\<close>

definition newDataCenter :: "rng \<Rightarrow> nat \<Rightarrow> bool \<Rightarrow> DataCenter \<times> nat" where
  "newDataCenter rnd n hasInfo =
     (case initializeServers rnd n of
        (st, n') \<Rightarrow>
          (let s = \<lparr> serverStatus = st, servers_dc = [], racks = [],
                     scene = Obj Group emptyUserData None [], materials = (\<lambda>p. None),
                     selectedServer = None, hoveredRack = None, hoveredServer = None,
                     info = (if hasInfo then Some PageMarkup else None) \<rparr>;
               s = s\<lparr> scene := createFloor (scene s) \<rparr>;
               s = s\<lparr> scene := createRackConnections (racks s) (createMainInfrastructure (scene s)) \<rparr>;
               s = createRacks s
           in (s\<lparr> materials := materialAt (scene s) \<rparr>, n')))"

subsection \<open>The info panel\<close>

definition showDefaultInfo :: "DataCenter \<Rightarrow> DataCenter" where
  "showDefaultInfo s = (case info s of None \<Rightarrow> s | Some old \<Rightarrow> s\<lparr> info := Some Legend \<rparr>)"

definition showServerInfo :: "ServerData \<Rightarrow> DataCenter \<Rightarrow> DataCenter" where
  "showServerInfo data s = (case info s of None \<Rightarrow> s | Some old \<Rightarrow> s\<lparr> info := Some (ServerDetail data) \<rparr>)"

text \<open>
  \<open>showRackInfo\<close>: the loop over the five slots collects the records found under
  \<open>rack<rackIndex>-server<i>\<close>; an undefined rack index prints as \<open>undefined\<close>.
\<close>

definition rackServerId :: "nat option \<Rightarrow> nat \<Rightarrow> string" where
  "rackServerId rackIndex i =
     ''rack'' @ (case rackIndex of None \<Rightarrow> ''undefined'' | Some r \<Rightarrow> string_of_nat r)
       @ ''-server'' @ string_of_nat i"

function rackRoster :: "ServerStatus \<Rightarrow> nat option \<Rightarrow> nat \<Rightarrow> ServerData list \<Rightarrow> ServerData list" where
  "rackRoster st rackIndex i serverList =
     (if i < 5 then
        rackRoster st rackIndex (Suc i)
          (case fst (getServerData st (rackServerId rackIndex i)) of
             None \<Rightarrow> serverList
           | Some data \<Rightarrow> serverList @ [data])
      else serverList)"
  by pat_completeness auto
termination
  by (relation "measure (\<lambda>(st, rackIndex, i, serverList). 5 - i)") auto

declare rackRoster.simps [simp del]

definition showRackInfo :: "nat option \<Rightarrow> DataCenter \<Rightarrow> DataCenter" where
  "showRackInfo rackIndex s =
     (case info s of
        None \<Rightarrow> s
      | Some old \<Rightarrow> s\<lparr> info := Some (RackList rackIndex (rackRoster (serverStatus s) rackIndex 0 [])) \<rparr>)"

subsection \<open>Writes to materials\<close>

text \<open>
  An assignment to a property of \<open>x.material\<close> throws a \<open>TypeError\<close> when the object
  has no material. A reference that leads to no object of the scene has no counterpart
  in the source; reading through it is a \<open>TypeError\<close> as well.
\<close>

definition setOpacity :: "ref \<Rightarrow> real \<Rightarrow> DataCenter \<Rightarrow> js_error + DataCenter" where
  "setOpacity p a s =
     (case materials s p of
        None \<Rightarrow> Inl TypeError
      | Some m \<Rightarrow> Inr (s\<lparr> materials := (materials s)(p \<mapsto> m\<lparr> opacity := a \<rparr>) \<rparr>))"

definition setWireframe :: "ref \<Rightarrow> bool \<Rightarrow> DataCenter \<Rightarrow> js_error + DataCenter" where
  "setWireframe p w s =
     (case materials s p of
        None \<Rightarrow> Inl TypeError
      | Some m \<Rightarrow> Inr (s\<lparr> materials := (materials s)(p \<mapsto> m\<lparr> wireframe := w \<rparr>) \<rparr>))"

subsection \<open>\<open>update\<close>\<close>

text \<open>
  The callback of \<open>this.servers.forEach\<close> in \<open>update\<close>, for the entry \<open>(k, serverMesh)\<close>:
  the uniform \<open>temperature\<close> of the mesh's material, then the colour of the material
  of \<open>serverMesh.children[0]\<close>: 0x00ff00, 0xffff00 or 0xff0000.
\<close>

definition updateMesh :: "string \<Rightarrow> ref \<Rightarrow> DataCenter \<Rightarrow> js_error + DataCenter" where
  "updateMesh k serverMesh s =
     (case fst (getServerData (serverStatus s) k) of
        None \<Rightarrow> Inr s
      | Some data \<Rightarrow>
          (let s = (case materials s serverMesh of
                      None \<Rightarrow> s
                    | Some m \<Rightarrow>
                        (case uniforms m of
                           None \<Rightarrow> s
                         | Some old \<Rightarrow>
                             s\<lparr> materials := (materials s)
                                  (serverMesh \<mapsto> m\<lparr> uniforms := Some ((temperature data - 20) / 30) \<rparr>) \<rparr>))
           in case lookup (scene s) serverMesh of
                None \<Rightarrow> Inl TypeError
              | Some n \<Rightarrow>
                  (case children n of
                     [] \<Rightarrow> Inr s
                   | light # others \<Rightarrow>
                       (case materials s (serverMesh @ [0]) of
                          None \<Rightarrow> Inr s
                        | Some lightMaterial \<Rightarrow>
                            (case color lightMaterial of
                               None \<Rightarrow> Inl TypeError
                             | Some old \<Rightarrow>
                                 Inr (s\<lparr> materials := (materials s)
                                        (serverMesh @ [0] \<mapsto>
                                           lightMaterial\<lparr> color := Some
                                             (case status data of
                                                Normal \<Rightarrow> 65280
                                              | Warning \<Rightarrow> 16776960
                                              | Error \<Rightarrow> 16711680) \<rparr>) \<rparr>))))))"

fun forEachMesh :: "(string \<times> ref) list \<Rightarrow> DataCenter \<Rightarrow> js_error + DataCenter" where
  "forEachMesh [] s = Inr s"
| "forEachMesh ((k, serverMesh) # rest) s =
     (case updateMesh k serverMesh s of Inl e \<Rightarrow> Inl e | Inr s' \<Rightarrow> forEachMesh rest s')"

definition update :: "rng \<Rightarrow> nat \<Rightarrow> DataCenter \<Rightarrow> (js_error + DataCenter) \<times> nat" where
  "update rnd n s =
     (case updateServerStatus rnd n (serverStatus s) of
        (st, n') \<Rightarrow> (forEachMesh (servers_dc s) (s\<lparr> serverStatus := st \<rparr>), n'))"

subsection \<open>The ray caster\<close>


subsection \<open>\<open>handleMouseMove\<close>\<close>

text \<open>\<open>Array.prototype.find\<close>, by the index of the element found.\<close>

fun findIndex :: "('a \<Rightarrow> bool) \<Rightarrow> 'a list \<Rightarrow> nat option" where
  "findIndex P [] = None"
| "findIndex P (x # xs) = (if P x then Some 0 else map_option Suc (findIndex P xs))"

text \<open>
  The first two statements of \<open>handleMouseMove\<close>: the opacity of the rack case of
  the hovered rack goes back to 1, and the wireframe of the hovered server is switched
  off unless that server is the selected one.
\<close>

definition clearHover :: "DataCenter \<Rightarrow> js_error + DataCenter" where
  "clearHover s =
     (case (case hoveredRack s of
              None \<Rightarrow> Inr s
            | Some r \<Rightarrow>
                (case lookup (scene s) r of
                   None \<Rightarrow> Inl TypeError
                 | Some n \<Rightarrow>
                     (case findIndex (\<lambda>child. ud_isRackCase (userData child)) (children n) of
                        None \<Rightarrow> Inr s
                      | Some i \<Rightarrow> setOpacity (r @ [i]) 1 s)))
      of Inl e \<Rightarrow> Inl e
       | Inr s \<Rightarrow>
           (case hoveredServer s of
              None \<Rightarrow> Inr s
            | Some h \<Rightarrow> if Some h \<noteq> selectedServer s then setWireframe h False s else Inr s))"

text \<open>
  The objects handed to the ray caster: the meshes that carry an identifier or the
  rack case flag. With \<open>recursive = true\<close> the ray caster also tests their
  descendants, so the nearest intersection is one of these objects or an object below
  one of them.
\<close>

definition interactiveObjects :: "obj \<Rightarrow> ref list" where
  "interactiveObjects t =
     filter (\<lambda>p. case lookup t p of
                   None \<Rightarrow> False
                 | Some child \<Rightarrow>
                     kind child = Mesh \<and> (truthy (ud_id (userData child)) \<or> ud_isRackCase (userData child)))
       (traverse t)"

text \<open>
  The \<open>while\<close> loop over the parents of the intersected object. It stops without a
  change at a rack group, takes a mesh that carries an identifier, takes the mesh
  registered under the identifier of a group, and ends at the root.
\<close>

function walkParents :: "obj \<Rightarrow> (string \<times> ref) list \<Rightarrow> ref \<Rightarrow> ref option \<Rightarrow> js_error + ref" where
  "walkParents t registered targetObject None = Inr targetObject"
| "walkParents t registered targetObject (Some p) =
     (case lookup t p of
        None \<Rightarrow> Inl TypeError
      | Some n \<Rightarrow>
          if kind n = Group \<and> ud_rackIndex (userData n) \<noteq> None then Inr targetObject
          else if kind n = Mesh \<and> truthy (ud_id (userData n)) then Inr p
          else
            (case (if kind n = Group \<and> truthy (ud_id (userData n))
                   then map_of registered (the (ud_id (userData n))) else None) of
               Some serverMesh \<Rightarrow> Inr serverMesh
             | None \<Rightarrow> walkParents t registered targetObject (parent p)))"
  by pat_completeness auto
termination
  by (relation "measure (\<lambda>(t, registered, targetObject, q). case q of None \<Rightarrow> 0 | Some p \<Rightarrow> Suc (length p))")
    (auto simp: parent_def split: if_splits)

declare walkParents.simps [simp del]

definition resolveTarget :: "obj \<Rightarrow> (string \<times> ref) list \<Rightarrow> ref \<Rightarrow> js_error + ref" where
  "resolveTarget t registered intersectedObject =
     walkParents t registered intersectedObject (parent intersectedObject)"

text \<open>
  The branch on the target the loop leaves in \<open>targetObject\<close>: a rack case dims and
  its rack becomes the hovered rack; an object with an identifier becomes the hovered
  server and shows its wireframe unless it is the selected server; any other object
  changes nothing.
\<close>

definition hoverTarget :: "DataCenter \<Rightarrow> ref \<Rightarrow> js_error + DataCenter" where
  "hoverTarget s targetObject =
     (case lookup (scene s) targetObject of
        None \<Rightarrow> Inl TypeError
      | Some n \<Rightarrow>
          if ud_isRackCase (userData n) then
            (case setOpacity targetObject 0.7 (s\<lparr> hoveredRack := parent targetObject \<rparr>) of
               Inl e \<Rightarrow> Inl e
             | Inr s \<Rightarrow>
                 (case parent targetObject of
                    None \<Rightarrow> Inl TypeError
                  | Some r \<Rightarrow>
                      (case lookup (scene s) r of
                         None \<Rightarrow> Inl TypeError
                       | Some rack \<Rightarrow> Inr (showRackInfo (ud_rackIndex (userData rack)) s))))
          else if truthy (ud_id (userData n)) then
            (case (if Some targetObject \<noteq> selectedServer s
                   then setWireframe targetObject True (s\<lparr> hoveredServer := Some targetObject \<rparr>)
                   else Inr (s\<lparr> hoveredServer := Some targetObject \<rparr>)) of
               Inl e \<Rightarrow> Inl e
             | Inr s \<Rightarrow>
                 (case fst (getServerData (serverStatus s) (the (ud_id (userData n)))) of
                    None \<Rightarrow> Inr s
                  | Some serverData \<Rightarrow> Inr (showServerInfo serverData s)))
          else Inr s)"

text \<open>
  The rest of \<open>handleMouseMove\<close>, for the list \<open>intersects\<close> the ray caster returns
  (nearest first): without an intersection nothing is hovered and the legend shows.
\<close>

definition applyHover :: "DataCenter \<Rightarrow> ref list \<Rightarrow> js_error + DataCenter" where
  "applyHover s intersects =
     (case intersects of
        [] \<Rightarrow> Inr (showDefaultInfo (s\<lparr> hoveredRack := None, hoveredServer := None \<rparr>))
      | intersectedObject # farther \<Rightarrow>
          (case resolveTarget (scene s) (servers_dc s) intersectedObject of
             Inl e \<Rightarrow> Inl e
           | Inr targetObject \<Rightarrow> hoverTarget s targetObject))"

definition handleMouseMove :: "DataCenter \<Rightarrow> ref list \<Rightarrow> js_error + DataCenter" where
  "handleMouseMove s intersects =
     (case clearHover s of Inl e \<Rightarrow> Inl e | Inr s \<Rightarrow> applyHover s intersects)"

subsection \<open>\<open>handleClick\<close>\<close>


definition handleClick :: "DataCenter \<Rightarrow> ref list \<Rightarrow> js_error + DataCenter" where
  "handleClick s intersects =
     (case intersects of
        [] \<Rightarrow> Inr s
      | clickedObject # farther \<Rightarrow>
          (case lookup (scene s) clickedObject of
             None \<Rightarrow> Inl TypeError
           | Some n \<Rightarrow>
               if truthy (ud_id (userData n)) then
                 (case fst (getServerData (serverStatus s) (the (ud_id (userData n)))) of
                    None \<Rightarrow> Inr s
                  | Some serverData \<Rightarrow>
                      (case (case selectedServer s of
                               None \<Rightarrow> Inr s
                             | Some old \<Rightarrow> setWireframe old False s) of
                         Inl e \<Rightarrow> Inl e
                       | Inr s \<Rightarrow>
                           (case setWireframe clickedObject True (s\<lparr> selectedServer := Some clickedObject \<rparr>) of
                              Inl e \<Rightarrow> Inl e
                            | Inr s \<Rightarrow> Inr (showServerInfo serverData s))))
               else Inr s))"

text \<open>A sequence of pointer moves, each with the intersections of its ray.\<close>

fun pointerMoves :: "DataCenter \<Rightarrow> ref list list \<Rightarrow> js_error + DataCenter" where
  "pointerMoves s [] = Inr s"
| "pointerMoves s (intersects # later) =
     (case handleMouseMove s intersects of Inl e \<Rightarrow> Inl e | Inr s' \<Rightarrow> pointerMoves s' later)"


text \<open>
  No object of the scene has two children flagged as rack case: \<open>createRack\<close> gives
  every rack exactly one.
\<close>

fun singleRackCase :: "obj \<Rightarrow> bool" where
  "singleRackCase (Obj k u m cs) =
     (length (filter (\<lambda>child. ud_isRackCase (userData child)) cs) \<le> 1 \<and> list_all singleRackCase cs)"

section \<open>Definitions used to state the properties\<close>

text \<open>A source of random numbers that returns the same value at every call.\<close>

definition constant_rng :: "real \<Rightarrow> rng" where
  "constant_rng c = (\<lambda>i. c)"


text \<open>The record \<open>initializeServers\<close> stores for a server, from the position \<open>n\<close> on.\<close>

definition initialRecord :: "rng \<Rightarrow> nat \<Rightarrow> nat \<Rightarrow> nat \<Rightarrow> ServerData" where
  "initialRecord rnd rack server n =
     \<lparr> server_id = serverId rack server,
       temperature = fl (fl (rnd n * 20) + 25),
       cpuUsage = fl (fl (rnd (n + 1) * 60) + 20),
       memoryUsage = fl (fl (rnd (n + 2) * 50) + 30),
       status = Normal \<rparr>"

definition rackRecords :: "rng \<Rightarrow> nat \<Rightarrow> nat \<Rightarrow> (string \<times> ServerData) list" where
  "rackRecords rnd n0 rack =
     map (\<lambda>s. (serverId rack s, initialRecord rnd rack s (n0 + 15 * rack + 3 * s))) [0..<5]"




text \<open>
  The target a pointer move resolves its intersections to: none without an
  intersection, else the object the loop over the parents leaves in \<open>targetObject\<close>
  for the nearest intersection.
\<close>

definition pickTarget :: "DataCenter \<Rightarrow> ref list \<Rightarrow> (js_error + ref) option" where
  "pickTarget s intersects =
     (case intersects of
        [] \<Rightarrow> None
      | intersectedObject # farther \<Rightarrow> Some (resolveTarget (scene s) (servers_dc s) intersectedObject))"

text \<open>
  One change applied to every material of the store, object by object.
\<close>

definition restyle :: "(ref \<Rightarrow> material \<Rightarrow> material) \<Rightarrow> DataCenter \<Rightarrow> DataCenter" where
  "restyle f s = s\<lparr> materials := (\<lambda>q. map_option (f q) (materials s q)) \<rparr>"

text \<open>
  The rack case the clear pass resets: the first child of the hovered rack that is
  flagged as rack case.
\<close>

definition hoveredCase :: "DataCenter \<Rightarrow> ref option" where
  "hoveredCase s =
     (case hoveredRack s of
        None \<Rightarrow> None
      | Some r \<Rightarrow>
          (case lookup (scene s) r of
             None \<Rightarrow> None
           | Some n \<Rightarrow> map_option (\<lambda>i. r @ [i]) (findIndex (\<lambda>child. ud_isRackCase (userData child)) (children n))))"

text \<open>
  What the clear pass does to the material of the object \<open>q\<close>.
\<close>

definition clearStyle :: "DataCenter \<Rightarrow> ref \<Rightarrow> material \<Rightarrow> material" where
  "clearStyle s q m =
     m\<lparr> opacity := (if hoveredCase s = Some q then 1 else opacity m),
        wireframe := (if hoveredServer s = Some q \<and> selectedServer s \<noteq> Some q then False else wireframe m) \<rparr>"

text \<open>
  The clear pass throws no \<open>TypeError\<close>: the hovered rack is an object of the scene,
  and the materials the pass writes to exist.
\<close>

definition clearOk :: "DataCenter \<Rightarrow> bool" where
  "clearOk s \<longleftrightarrow>
     (case hoveredRack s of None \<Rightarrow> True | Some r \<Rightarrow> lookup (scene s) r \<noteq> None) \<and>
     (case hoveredCase s of None \<Rightarrow> True | Some p \<Rightarrow> materials s p \<noteq> None) \<and>
     (case hoveredServer s of None \<Rightarrow> True
      | Some h \<Rightarrow> Some h = selectedServer s \<or> materials s h \<noteq> None)"

text \<open>
  An object at which the loop over the parents goes on to the next parent: not a rack
  group, not a mesh with an identifier, not a group whose identifier is registered.
\<close>

definition plain :: "(string \<times> ref) list \<Rightarrow> obj \<Rightarrow> bool" where
  "plain registered n \<longleftrightarrow>
     \<not> (kind n = Group \<and> ud_rackIndex (userData n) \<noteq> None) \<and>
     \<not> (kind n = Mesh \<and> truthy (ud_id (userData n))) \<and>
     \<not> (kind n = Group \<and> truthy (ud_id (userData n)) \<and>
        map_of registered (the (ud_id (userData n))) \<noteq> None)"

text \<open>
  The colour of the indicator light for a status: 0x00ff00, 0xffff00, 0xff0000.
\<close>

definition light_color :: "status \<Rightarrow> nat" where
  "light_color st = (case st of Normal \<Rightarrow> 65280 | Warning \<Rightarrow> 16776960 | Error \<Rightarrow> 16711680)"

text \<open>
  The scene before \<open>createRacks\<close>: the floor, the grid, the base and the 24 pipes of the
  main infrastructure.
\<close>

definition baseScene :: obj where
  "baseScene = createRackConnections [] (createMainInfrastructure (createFloor (Obj Group emptyUserData None [])))"

text \<open>
  The entries \<open>createRack\<close> adds to \<open>this.servers\<close> for the rack \<open>r\<close>, when the first rack
  is the child number \<open>base\<close> of the scene.
\<close>

definition registeredOf :: "nat \<Rightarrow> nat \<Rightarrow> (string \<times> ref) list" where
  "registeredOf base r = map (\<lambda>i. (serverId r i, [base + r, Suc i, 0])) [0..<5]"

text \<open>
  The data center as \<open>new DataCenter()\<close> builds it on a page with an \<open>#info\<close> element,
  when every call of \<open>Math.random()\<close> returns 0.95.
\<close>

definition demo :: DataCenter where
  "demo = fst (newDataCenter (constant_rng (19 / 20)) 0 True)"

definition pipeRow :: "obj list" where
  "pipeRow = map (\<lambda>c. Obj Mesh emptyUserData (Some (colorMaterial c 1)) []) infrastructureTypes"

text \<open>
  The wireframe flag of the material of an object, if it has one.
\<close>

definition wireframeAt :: "DataCenter \<Rightarrow> ref \<Rightarrow> bool option" where
  "wireframeAt s p = map_option wireframe (materials s p)"

text \<open>
  A state that has the scene, the registered meshes and the material objects of
  \<open>demo\<close>, and on which the clear pass does not throw.
\<close>

definition demoInv :: "DataCenter \<Rightarrow> bool" where
  "demoInv s \<longleftrightarrow>
     scene s = scene demo \<and> servers_dc s = servers_dc demo \<and>
     (\<forall>p. materials s p = None \<longleftrightarrow> materials demo p = None) \<and> clearOk s"

section \<open>Rounding to the nearest double\<close>

lemma tiny_pos: "0 < tiny"
  by (simp add: tiny_def)

lemma round_even_of_int: "round_even (of_int n) = n"
  by (simp add: round_even_def)

lemma round_even_floor: "\<lfloor>x\<rfloor> \<le> round_even x \<and> round_even x \<le> \<lfloor>x\<rfloor> + 1"
  by (simp add: round_even_def Let_def)

lemma round_even_le: "x \<le> of_int n \<Longrightarrow> round_even x \<le> n"
proof -
  assume a: "x \<le> of_int n"
  then have f: "\<lfloor>x\<rfloor> \<le> n" by (metis floor_mono floor_of_int)
  show ?thesis
  proof (cases "\<lfloor>x\<rfloor> = n")
    case True
    with a have "x = of_int n" using of_int_floor_le [of x] by simp
    then show ?thesis by (simp add: round_even_of_int)
  next
    case False
    with f have "\<lfloor>x\<rfloor> + 1 \<le> n" by simp
    with round_even_floor [of x] show ?thesis by linarith
  qed
qed

lemma round_even_ge: "of_int n \<le> x \<Longrightarrow> n \<le> round_even x"
proof -
  assume "of_int n \<le> x"
  then have "n \<le> \<lfloor>x\<rfloor>" by (simp add: le_floor_iff)
  with round_even_floor [of x] show ?thesis by linarith
qed

lemma spacing_mono: "\<bar>x\<bar> \<le> \<bar>y\<bar> \<Longrightarrow> spacing x \<le> spacing y"
proof -
  assume "\<bar>x\<bar> \<le> \<bar>y\<bar>"
  then have "\<lfloor>\<bar>x\<bar> / tiny\<rfloor> \<le> \<lfloor>\<bar>y\<bar> / tiny\<rfloor>"
    by (intro floor_mono divide_right_mono) (simp_all add: tiny_pos less_imp_le)
  then have "bitlen \<lfloor>\<bar>x\<bar> / tiny\<rfloor> \<le> bitlen \<lfloor>\<bar>y\<bar> / tiny\<rfloor>"
    by (simp add: bitlen_def floorlog_mono)
  then show ?thesis by (simp add: spacing_def diff_le_mono)
qed

lemma fl_scaled:
  "0 \<le> x \<Longrightarrow> fl x / tiny = of_int (round_even (x / tiny / 2 ^ spacing x)) * 2 ^ spacing x"
  using tiny_pos by (cases "x = 0") (simp_all add: fl_def round_even_def)

lemma fl_nonneg: "0 \<le> x \<Longrightarrow> 0 \<le> fl x"
proof -
  assume x: "0 \<le> x"
  then have "(0::real) \<le> x / tiny / 2 ^ spacing x" using tiny_pos by simp
  then have "0 \<le> round_even (x / tiny / 2 ^ spacing x)"
    using round_even_ge [of 0] by simp
  then have "0 \<le> fl x / tiny" by (simp add: fl_scaled [OF x])
  then show ?thesis using tiny_pos by (simp add: zero_le_divide_iff)
qed

lemma fl_le:
  assumes "0 \<le> x" "x \<le> b" "fl b = b"
  shows "fl x \<le> b"
proof -
  define s t where "s = spacing x" and "t = spacing b"
  define M where "M = round_even (b / tiny / 2 ^ t)"
  from assms have b0: "0 \<le> b" by simp
  from assms have st: "s \<le> t" unfolding s_def t_def by (intro spacing_mono) simp
  have b: "b / tiny = of_int M * 2 ^ t"
    unfolding M_def t_def using fl_scaled [OF b0] by (simp only: assms(3))
  have "x / tiny / 2 ^ s \<le> b / tiny / 2 ^ s"
    using assms(2) by (intro divide_right_mono) (simp_all add: tiny_pos less_imp_le)
  also have "\<dots> = of_int M * 2 ^ (t - s)"
    using st by (simp add: b power_diff)
  also have "\<dots> = of_int (M * 2 ^ (t - s))" by simp
  finally have "round_even (x / tiny / 2 ^ s) \<le> M * 2 ^ (t - s)" by (rule round_even_le)
  then have "real_of_int (round_even (x / tiny / 2 ^ s)) \<le> of_int (M * 2 ^ (t - s))"
    by (simp only: of_int_le_iff)
  then have "of_int (round_even (x / tiny / 2 ^ s)) * 2 ^ s \<le> (of_int M * 2 ^ (t - s)) * (2::real) ^ s"
    by (intro mult_right_mono) simp_all
  also have "\<dots> = of_int M * 2 ^ t"
    using st by (simp add: power_add [symmetric])
  finally have "fl x / tiny \<le> b / tiny"
    by (simp add: fl_scaled [OF assms(1)] s_def b)
  then show ?thesis using tiny_pos by (simp add: divide_le_cancel)
qed

lemma fl_ge:
  assumes "0 \<le> a" "a \<le> x" "fl a = a"
  shows "a \<le> fl x"
proof -
  define s t where "s = spacing x" and "t = spacing a"
  define M where "M = round_even (a / tiny / 2 ^ t)"
  from assms have x0: "0 \<le> x" by simp
  from assms have ts: "t \<le> s" unfolding s_def t_def by (intro spacing_mono) simp
  have a: "a / tiny = of_int M * 2 ^ t"
    unfolding M_def t_def using fl_scaled [OF assms(1)] by (simp only: assms(3))
  have "a / tiny \<le> fl x / tiny"
  proof (cases "t = s")
    case True
    have "of_int M = a / tiny / 2 ^ s" by (simp add: a True)
    also have "\<dots> \<le> x / tiny / 2 ^ s"
      using assms(2) by (intro divide_right_mono) (simp_all add: tiny_pos less_imp_le)
    finally have "M \<le> round_even (x / tiny / 2 ^ s)" by (rule round_even_ge)
    then have "real_of_int M \<le> of_int (round_even (x / tiny / 2 ^ s))"
      by (simp only: of_int_le_iff)
    then have "of_int M * 2 ^ s \<le> of_int (round_even (x / tiny / 2 ^ s)) * (2::real) ^ s"
      by (intro mult_right_mono) simp_all
    then show ?thesis by (simp add: fl_scaled [OF x0] s_def a True)
  next
    case False
    with ts have lt: "t < s" by simp
    define X where "X = \<lfloor>\<bar>x\<bar> / tiny\<rfloor>"
    define A where "A = \<lfloor>\<bar>a\<bar> / tiny\<rfloor>"
    from lt have "nat (bitlen X) = s + 53" by (simp add: s_def spacing_def X_def)
    then have "int (s + 53) \<le> bitlen X" by linarith
    moreover have "nat (int (s + 53)) - 1 = s + 52" by simp
    ultimately have "2 ^ (s + 52) \<le> X"
      using bitlen_ge_iff_power [of "int (s + 53)" X] by (simp del: of_nat_add add: ac_simps)
    then have "(2::real) ^ (s + 52) \<le> x / tiny"
      using x0 by (simp add: X_def le_floor_iff)
    then have "(2::real) ^ 52 * 2 ^ s \<le> x / tiny"
      by (simp only: power_add mult.commute)
    moreover have p: "(0::real) < 2 ^ s" by simp
    ultimately have "(2::real) ^ 52 \<le> x / tiny / 2 ^ s"
      by (simp only: pos_le_divide_eq)
    then have "of_int (2 ^ 52) \<le> x / tiny / 2 ^ s" by simp
    then have "2 ^ 52 \<le> round_even (x / tiny / 2 ^ s)" by (rule round_even_ge)
    then have "(2::real) ^ 52 \<le> of_int (round_even (x / tiny / 2 ^ s))" by simp
    then have "(2::real) ^ 52 * 2 ^ s \<le> of_int (round_even (x / tiny / 2 ^ s)) * 2 ^ s"
      using p by (simp only: mult_le_cancel_right_pos)
    then have hi: "(2::real) ^ (s + 52) \<le> fl x / tiny"
      by (simp only: fl_scaled [OF x0] s_def [symmetric] power_add mult.commute)
    have "nat (bitlen A) \<le> t + 53" by (simp add: t_def spacing_def A_def)
    then have "bitlen A \<le> int (t + 53)" by linarith
    moreover have "nat (int (t + 53)) = t + 53" by simp
    ultimately have "A < 2 ^ (t + 53)"
      using bitlen_le_iff_power [of A "int (t + 53)"] by (simp del: of_nat_add)
    then have "a / tiny < 2 ^ (t + 53)"
      using assms(1) by (simp add: A_def floor_less_iff)
    also have "\<dots> \<le> (2::real) ^ (s + 52)"
      using lt by (intro power_increasing) simp_all
    finally show ?thesis using hi by simp
  qed
  then show ?thesis using tiny_pos by (simp add: divide_le_cancel)
qed


lemma round_even_near:
  "of_int n - 1 / 2 < x \<Longrightarrow> x < of_int n + 1 / 2 \<Longrightarrow> round_even x = n"
proof -
  assume a: "of_int n - 1 / 2 < x" and b: "x < of_int n + 1 / 2"
  show ?thesis
  proof (cases "of_int n \<le> x")
    case True
    with b have "\<lfloor>x\<rfloor> = n" by (intro floor_unique) simp_all
    with b show ?thesis by (simp add: round_even_def)
  next
    case False
    with a have "\<lfloor>x\<rfloor> = n - 1" by (intro floor_unique) simp_all
    with a False show ?thesis by (simp add: round_even_def)
  qed
qed

lemma round_even_tie:
  "x = of_int n + 1 / 2 \<Longrightarrow> round_even x = (if even n then n else n + 1)"
proof -
  assume x: "x = of_int n + 1 / 2"
  then have "\<lfloor>x\<rfloor> = n" by (intro floor_unique) simp_all
  with x show ?thesis by (simp add: round_even_def)
qed

lemma fl_zero: "fl 0 = 0"
  by (simp add: fl_def)

lemma fl_exact:
  assumes "\<bar>m\<bar> < 2 ^ 53" "x = of_int m * 2 ^ k * tiny"
  shows "fl x = x"
proof (cases "m = 0")
  case True
  with assms show ?thesis by (simp add: fl_zero)
next
  case False
  then have m: "0 < \<bar>m\<bar>" by simp
  have y: "\<bar>x\<bar> / tiny = of_int (\<bar>m\<bar> * 2 ^ k)"
    using tiny_pos by (simp add: assms(2) abs_mult)
  have "bitlen \<bar>m\<bar> \<le> 53"
    using assms(1) bitlen_le_iff_power [of "\<bar>m\<bar>" 53] by simp
  moreover have "bitlen (\<bar>m\<bar> * 2 ^ k) = bitlen \<bar>m\<bar> + int k"
    using m by (rule bitlen_pow2)
  ultimately have "nat (bitlen (\<bar>m\<bar> * 2 ^ k)) \<le> 53 + k" by simp
  then have sk: "spacing x \<le> k"
    unfolding spacing_def y floor_of_int by simp
  define s where "s = spacing x"
  have "\<bar>x\<bar> / tiny / 2 ^ s = of_int \<bar>m\<bar> * 2 ^ (k - s)"
    using sk by (simp add: y s_def power_diff)
  also have "\<dots> = of_int (\<bar>m\<bar> * 2 ^ (k - s))" by simp
  finally have "round_even (\<bar>x\<bar> / tiny / 2 ^ s) = \<bar>m\<bar> * 2 ^ (k - s)"
    by (simp only: round_even_of_int)
  then have "fl x = sgn x * (of_int (\<bar>m\<bar> * 2 ^ (k - s)) * 2 ^ s * tiny)"
    by (simp only: fl_def s_def)
  also have "of_int (\<bar>m\<bar> * 2 ^ (k - s)) * 2 ^ s * tiny = of_int \<bar>m\<bar> * (2 ^ (k - s) * 2 ^ s) * tiny"
    by simp
  also have "(2::real) ^ (k - s) * 2 ^ s = 2 ^ k"
    using sk by (simp add: s_def power_add [symmetric])
  also have "of_int \<bar>m\<bar> * 2 ^ k * tiny = \<bar>x\<bar>"
    using tiny_pos by (simp add: assms(2) abs_mult)
  finally show ?thesis by (simp add: sgn_mult_abs)
qed

lemma unit_tiny: "j \<le> 1074 \<Longrightarrow> 2 ^ (1074 - j) * tiny = 1 / 2 ^ j"
proof -
  assume j: "j \<le> 1074"
  define a where "a = (2::real) ^ (1074 - j)"
  have a: "0 < a" by (simp add: a_def)
  have "(2::real) ^ 1074 = a * 2 ^ j"
    unfolding a_def using j by (simp only: power_add [symmetric] le_add_diff_inverse2)
  then have t: "tiny = 1 / (a * 2 ^ j)" by (simp only: tiny_def)
  have "a * tiny = 1 / 2 ^ j" unfolding t using a by simp
  then show ?thesis by (simp only: a_def)
qed

lemma fl_dyadic:
  assumes "\<bar>m\<bar> < 2 ^ 53" "j \<le> 1074"
  shows "fl (of_int m / 2 ^ j) = of_int m / 2 ^ j"
proof -
  have "of_int m / 2 ^ j = of_int m * (2 ^ (1074 - j) * tiny)"
    by (simp only: unit_tiny [OF assms(2)]) simp
  then have "of_int m / 2 ^ j = of_int m * 2 ^ (1074 - j) * tiny" by (simp only: mult.assoc)
  with assms(1) show ?thesis by (rule fl_exact)
qed

lemma fl_int: "\<bar>m\<bar> < 2 ^ 53 \<Longrightarrow> fl (of_int m) = of_int m"
  using fl_dyadic [of m 0] by simp

lemma fl_round:
  assumes "j \<le> 1074" "2 ^ 52 / 2 ^ j \<le> x" "x < 2 ^ 53 / 2 ^ j"
  shows "fl x = of_int (round_even (x * 2 ^ j)) / 2 ^ j"
proof -
  define k where "k = 1074 - j"
  have u: "2 ^ k * tiny = 1 / 2 ^ j" unfolding k_def using assms(1) by (rule unit_tiny)
  have p: "(0::real) < 2 ^ k" by simp
  have "(0::real) < 2 ^ 52 / 2 ^ j" by simp
  with assms(2) have x: "0 < x" by linarith
  have xt: "x / tiny = x * 2 ^ j * 2 ^ k"
  proof -
    from u have t: "tiny = 1 / (2 ^ j * 2 ^ k)" using p by (simp add: field_simps)
    show ?thesis unfolding t by simp
  qed
  have lo: "(2::real) ^ (52 + k) \<le> x / tiny"
  proof -
    from assms(2) have "(2::real) ^ 52 \<le> x * 2 ^ j" by (simp add: field_simps)
    then have "(2::real) ^ 52 * 2 ^ k \<le> x * 2 ^ j * 2 ^ k"
      using p by (simp only: mult_le_cancel_right_pos)
    then show ?thesis by (simp only: xt power_add)
  qed
  have hi: "x / tiny < 2 ^ (53 + k)"
  proof -
    from assms(3) have "x * 2 ^ j < 2 ^ 53" by (simp add: field_simps)
    then have "x * 2 ^ j * 2 ^ k < 2 ^ 53 * 2 ^ k"
      using p by (simp only: mult_less_cancel_right_pos)
    then show ?thesis by (simp only: xt power_add)
  qed
  define X where "X = \<lfloor>\<bar>x\<bar> / tiny\<rfloor>"
  from lo x have "2 ^ (52 + k) \<le> X"
    unfolding X_def by (simp add: le_floor_iff)
  moreover have "nat (int (53 + k)) - 1 = 52 + k" by simp
  ultimately have "int (53 + k) \<le> bitlen X"
    using bitlen_ge_iff_power [of "int (53 + k)" X] by (simp del: of_nat_add)
  moreover from hi x have "X < 2 ^ (53 + k)"
    unfolding X_def by (simp add: floor_less_iff)
  then have "bitlen X \<le> int (53 + k)"
    using bitlen_le_iff_power [of X "int (53 + k)"] by (simp del: of_nat_add)
  ultimately have "bitlen X = int (53 + k)" by simp
  then have s: "spacing x = k" by (simp add: spacing_def X_def)
  have "x / tiny / 2 ^ k = x * 2 ^ j" by (simp add: xt)
  then have "fl x = of_int (round_even (x * 2 ^ j)) * (2 ^ k * tiny)"
    using x by (simp add: fl_def s)
  then show ?thesis by (simp only: u) simp
qed

lemma fl_exact_values:
  "fl 10 = 10" "fl 19 = 19" "fl 20 = 20" "fl 25 = 25" "fl 30 = 30" "fl 35 = 35" "fl 44 = 44"
  "fl 45 = 45" "fl 50 = 50" "fl 55 = 55" "fl 57 = 57" "fl 60 = 60" "fl 77 = 77" "fl 80 = 80"
  "fl (95 / 2) = 95 / 2" "fl (155 / 2) = 155 / 2"
  using fl_int [of 10] fl_int [of 19] fl_int [of 20] fl_int [of 25] fl_int [of 30] fl_int [of 35]
    fl_int [of 44] fl_int [of 45] fl_int [of 50] fl_int [of 55] fl_int [of 57] fl_int [of 60]
    fl_int [of 77] fl_int [of 80] fl_dyadic [of 95 1] fl_dyadic [of 155 1]
  by simp_all

text \<open>
  The largest double below 1, and the sums it leads to in \<open>initializeServers\<close>: each
  product is rounded to the double next to its factor, and each sum then lies halfway
  between two doubles, of which the even one is the upper bound of the range.
\<close>

lemma fl_below_one: "fl (1 - 1 / 2 ^ 53) = 1 - 1 / 2 ^ 53"
  using fl_dyadic [of "2 ^ 53 - 1" 53] by (simp add: field_simps)

lemma fl_top_20: "fl ((1 - 1 / 2 ^ 53) * 20) = 20 - 1 / 2 ^ 48"
proof -
  have "round_even ((1 - 1 / 2 ^ 53) * 20 * 2 ^ 48) = 5629499534213119"
    by (rule round_even_near) simp_all
  then show ?thesis
    by (subst fl_round [where j = 48]) simp_all
qed

lemma fl_top_45: "fl (20 - 1 / 2 ^ 48 + 25) = 45"
proof -
  have "round_even ((20 - 1 / 2 ^ 48 + 25) * 2 ^ 47) =
      (if even (6333186975989759::int) then 6333186975989759 else 6333186975989759 + 1)"
    by (rule round_even_tie) simp
  then show ?thesis
    by (subst fl_round [where j = 47]) simp_all
qed

lemma fl_top_60: "fl ((1 - 1 / 2 ^ 53) * 60) = 60 - 1 / 2 ^ 47"
proof -
  have "round_even ((1 - 1 / 2 ^ 53) * 60 * 2 ^ 47) = 8444249301319679"
    by (rule round_even_near) simp_all
  then show ?thesis
    by (subst fl_round [where j = 47]) simp_all
qed

lemma fl_top_80: "fl (60 - 1 / 2 ^ 47 + 20) = 80"
proof -
  have "round_even ((60 - 1 / 2 ^ 47 + 20) * 2 ^ 46) =
      (if even (5629499534213119::int) then 5629499534213119 else 5629499534213119 + 1)"
    by (rule round_even_tie) simp
  then show ?thesis
    by (subst fl_round [where j = 46]) simp_all
qed

lemma fl_top_50: "fl ((1 - 1 / 2 ^ 53) * 50) = 50 - 1 / 2 ^ 47"
proof -
  have "round_even ((1 - 1 / 2 ^ 53) * 50 * 2 ^ 47) = 7036874417766399"
    by (rule round_even_near) simp_all
  then show ?thesis
    by (subst fl_round [where j = 47]) simp_all
qed

lemma fl_top_80_sum: "fl (50 - 1 / 2 ^ 47 + 30) = 80"
proof -
  have "round_even ((50 - 1 / 2 ^ 47 + 30) * 2 ^ 46) =
      (if even (5629499534213119::int) then 5629499534213119 else 5629499534213119 + 1)"
    by (rule round_even_tie) simp
  then show ?thesis
    by (subst fl_round [where j = 46]) simp_all
qed

text \<open>The draw \<open>1 - 1 / 2 ^ 52\<close>, the largest multiple of \<open>1 / 2 ^ 52\<close> below 1.\<close>

lemma fl_top2_20: "fl ((1 - 1 / 2 ^ 52) * 20) = 20 - 1 / 2 ^ 48"
proof -
  have "round_even ((1 - 1 / 2 ^ 52) * 20 * 2 ^ 48) = 5629499534213119"
    by (rule round_even_near) simp_all
  then show ?thesis
    by (subst fl_round [where j = 48]) simp_all
qed

lemma initial_value_range:
  assumes "0 \<le> r" "r < 1" "0 \<le> a" "0 \<le> b" "fl a = a" "fl b = b" "fl (a + b) = a + b"
  shows "b \<le> fl (fl (r * a) + b) \<and> fl (fl (r * a) + b) \<le> a + b"
proof -
  from assms(1,3) have p: "0 \<le> r * a" by simp
  from assms(2,3) have "r * a \<le> 1 * a" by (intro mult_right_mono) simp_all
  then have q: "r * a \<le> a" by simp
  from p have lo: "0 \<le> fl (r * a)" by (rule fl_nonneg)
  from p q assms(5) have hi: "fl (r * a) \<le> a" by (rule fl_le)
  from lo have 1: "b \<le> fl (r * a) + b" by simp
  from hi have 2: "fl (r * a) + b \<le> a + b" by simp
  from lo assms(4) have 0: "0 \<le> fl (r * a) + b" by simp
  from assms(4) 1 assms(6) have "b \<le> fl (fl (r * a) + b)" by (rule fl_ge)
  moreover from 0 2 assms(7) have "fl (fl (r * a) + b) \<le> a + b" by (rule fl_le)
  ultimately show ?thesis ..
qed

section \<open>The telemetry store: initialisation\<close>

lemma map_set_fresh: "k \<notin> fst ` set m \<Longrightarrow> map_set m k v = m @ [(k, v)]"
  by (induction m) auto

lemma digit_inj: "a < 10 \<Longrightarrow> b < 10 \<Longrightarrow> digit a = digit b \<Longrightarrow> a = b"
proof -
  assume a: "a < 10" and b: "b < 10" and e: "digit a = digit b"
  have d: "distinct ''0123456789''" by simp
  have l: "length ''0123456789'' = 10" by simp
  from e have "''0123456789'' ! a = ''0123456789'' ! b" by (simp only: digit_def)
  with d a b l show "a = b" by (simp only: nth_eq_iff_index_eq)
qed

lemma string_of_digit: "n < 10 \<Longrightarrow> string_of_nat n = [digit n]"
  by (simp add: string_of_nat.simps)

lemma serverId_inj:
  "r < 10 \<Longrightarrow> s < 10 \<Longrightarrow> r' < 10 \<Longrightarrow> s' < 10 \<Longrightarrow> serverId r s = serverId r' s' \<Longrightarrow> r = r' \<and> s = s'"
  by (auto simp: serverId_def string_of_digit dest: digit_inj)

lemma initServerLoop_eq:
  "server \<le> 5 \<Longrightarrow> rack < 10 \<Longrightarrow> (\<forall>s<5. serverId rack s \<notin> fst ` set m) \<Longrightarrow>
   initServerLoop rnd rack server
     (m @ map (\<lambda>s. (serverId rack s, initialRecord rnd rack s (n0 + 3 * s))) [0..<server], n0 + 3 * server) =
     (m @ map (\<lambda>s. (serverId rack s, initialRecord rnd rack s (n0 + 3 * s))) [0..<5], n0 + 15)"
proof (induction "5 - server" arbitrary: server)
  case 0
  then have "server = 5" by simp
  then show ?case by (simp add: initServerLoop.simps)
next
  case (Suc d)
  then have lt: "server < 5" by simp
  let ?f = "\<lambda>s. (serverId rack s, initialRecord rnd rack s (n0 + 3 * s))"
  have fresh: "serverId rack server \<notin> fst ` set (m @ map ?f [0..<server])"
  proof
    assume "serverId rack server \<in> fst ` set (m @ map ?f [0..<server])"
    then consider "serverId rack server \<in> fst ` set m" | s where "s < server" "serverId rack server = serverId rack s"
      by auto
    then show False
    proof cases
      case 1 with Suc.prems lt show False by blast
    next
      case 2
      with serverId_inj [of rack server rack s] Suc.prems lt show False by simp
    qed
  qed
  have step: "initServerLoop rnd rack server (m @ map ?f [0..<server], n0 + 3 * server) =
     initServerLoop rnd rack (Suc server) (m @ map ?f [0..<Suc server], n0 + 3 * Suc server)"
    apply (subst initServerLoop.simps)
    apply (simp only: lt if_True map_set_fresh [OF fresh])
    apply (simp add: initialRecord_def ac_simps)
    done
  from Suc.hyps(2) have d: "d = 5 - Suc server" by simp
  from lt have le: "Suc server \<le> 5" by simp
  show ?case
    unfolding step using Suc.hyps(1) [OF d le Suc.prems(2) Suc.prems(3)] .
qed

lemma fst_rackRecords: "fst ` set (rackRecords rnd n0 rack) = serverId rack ` {0..<5}"
  by (force simp: rackRecords_def)

lemma initRackLoop_eq:
  "rack \<le> 9 \<Longrightarrow>
   initRackLoop rnd rack (concat (map (rackRecords rnd n0) [0..<rack]), n0 + 15 * rack) =
     (concat (map (rackRecords rnd n0) [0..<9]), n0 + 135)"
proof (induction "9 - rack" arbitrary: rack)
  case 0
  then have "rack = 9" by simp
  then show ?case by (simp add: initRackLoop.simps)
next
  case (Suc d)
  then have lt: "rack < 9" by simp
  let ?m = "concat (map (rackRecords rnd n0) [0..<rack])"
  have fresh: "\<forall>s<5. serverId rack s \<notin> fst ` set ?m"
  proof (intro allI impI notI)
    fix s assume s: "s < 5" and "serverId rack s \<in> fst ` set ?m"
    then obtain x where "x \<in> set ?m" "fst x = serverId rack s" by force
    then obtain r where "r < rack" "x \<in> set (rackRecords rnd n0 r)" by auto
    with \<open>fst x = serverId rack s\<close> have "serverId rack s \<in> fst ` set (rackRecords rnd n0 r)"
      by force
    then obtain s' where "s' < 5" "serverId rack s = serverId r s'"
      by (auto simp: fst_rackRecords)
    with serverId_inj [of rack s r s'] lt s \<open>r < rack\<close> show False by simp
  qed
  have "initServerLoop rnd rack 0 (?m @ map (\<lambda>s. (serverId rack s, initialRecord rnd rack s ((n0 + 15 * rack) + 3 * s))) [0..<0], (n0 + 15 * rack) + 3 * 0)
      = (?m @ map (\<lambda>s. (serverId rack s, initialRecord rnd rack s ((n0 + 15 * rack) + 3 * s))) [0..<5], (n0 + 15 * rack) + 15)"
    using lt fresh by (intro initServerLoop_eq) simp_all
  then have inner: "initServerLoop rnd rack 0 (?m, n0 + 15 * rack) =
      (concat (map (rackRecords rnd n0) [0..<Suc rack]), n0 + 15 * Suc rack)"
    by (simp add: rackRecords_def)
  have step: "initRackLoop rnd rack (?m, n0 + 15 * rack) =
     initRackLoop rnd (Suc rack) (concat (map (rackRecords rnd n0) [0..<Suc rack]), n0 + 15 * Suc rack)"
    using lt by (subst initRackLoop.simps) (simp only: inner if_True)
  from Suc.hyps(2) have d: "d = 9 - Suc rack" by simp
  from lt have le: "Suc rack \<le> 9" by simp
  show ?case
    unfolding step using Suc.hyps(1) [OF d le] .
qed

lemma initializeServers_eq:
  "initializeServers rnd n = (\<lparr> servers = concat (map (rackRecords rnd n) [0..<9]) \<rparr>, n + 135)"
  using initRackLoop_eq [of 0 rnd n] by (simp add: initializeServers_def)

section \<open>The telemetry store: one tick\<close>

lemma updateServer_eq:
  "updateServer r1 r2 r3 r =
     r\<lparr> temperature := max 25 (min 45 (temperature r + (r1 - 0.5) * 2)),
        cpuUsage := max 20 (min 95 (cpuUsage r + (r2 - 0.5) * 10)),
        memoryUsage := max 30 (min 95 (memoryUsage r + (r3 - 0.5) * 5)),
        status := threshold_status (max 25 (min 45 (temperature r + (r1 - 0.5) * 2)))
          (max 20 (min 95 (cpuUsage r + (r2 - 0.5) * 10)))
          (max 30 (min 95 (memoryUsage r + (r3 - 0.5) * 5))) \<rparr>"
proof (cases r)
  case (fields i t0 c0 m0 s0)
  define t where "t = max 25 (min 45 (t0 + (r1 - 0.5) * 2))"
  define c where "c = max 20 (min 95 (c0 + (r2 - 0.5) * 10))"
  define m where "m = max 30 (min 95 (m0 + (r3 - 0.5) * 5))"
  have "updateServer r1 r2 r3 r =
     (if t > 42 \<or> c > 90 \<or> m > 90
      then \<lparr> server_id = i, temperature = t, cpuUsage = c, memoryUsage = m, status = Error \<rparr>
      else if t > 38 \<or> c > 75 \<or> m > 75
      then \<lparr> server_id = i, temperature = t, cpuUsage = c, memoryUsage = m, status = Warning \<rparr>
      else \<lparr> server_id = i, temperature = t, cpuUsage = c, memoryUsage = m, status = Normal \<rparr>)"
    unfolding updateServer_def Let_def t_def c_def m_def fields
    by (simp only: ServerData.select_convs ServerData.update_convs)
  also have "\<dots> = \<lparr> server_id = i, temperature = t, cpuUsage = c, memoryUsage = m,
      status = threshold_status t c m \<rparr>"
    by (simp add: threshold_status_def)
  also have "\<dots> = r\<lparr> temperature := t, cpuUsage := c, memoryUsage := m,
      status := threshold_status t c m \<rparr>"
    unfolding fields by (simp only: ServerData.select_convs ServerData.update_convs)
  finally show ?thesis unfolding t_def c_def m_def fields
    by (simp only: ServerData.select_convs ServerData.update_convs)
qed



lemma updateServer_consistent: "consistent (updateServer r1 r2 r3 r)"
  unfolding updateServer_eq consistent_def by simp

lemma updateServer_clamped: "clamped (updateServer r1 r2 r3 r)"
  unfolding updateServer_eq clamped_def by simp

lemma forEachServer_snd: "snd (forEachServer rnd n xs) = n + 3 * length xs"
  by (induction xs arbitrary: n) (auto simp: case_prod_beta)

lemma forEachServer_length: "length (fst (forEachServer rnd n xs)) = length xs"
  by (induction xs arbitrary: n) (auto simp: case_prod_beta)

lemma forEachServer_nth:
  "j < length xs \<Longrightarrow>
   fst (forEachServer rnd n xs) ! j =
     (fst (xs ! j), updateServer (rnd (n + 3 * j)) (rnd (n + 3 * j + 1)) (rnd (n + 3 * j + 2)) (snd (xs ! j)))"
proof (induction xs arbitrary: n j)
  case Nil
  then show ?case by simp
next
  case (Cons x xs)
  obtain k r where x: "x = (k, r)" by (cases x)
  show ?case
  proof (cases j)
    case 0
    then show ?thesis by (simp add: x case_prod_beta)
  next
    case (Suc i)
    with Cons.prems have "i < length xs" by simp
    from Cons.IH [OF this, of "n + 3"] show ?thesis
      by (simp add: x Suc ac_simps case_prod_beta)
  qed
qed

lemma forEachServer_all:
  "(k, r) \<in> set (fst (forEachServer rnd n xs)) \<Longrightarrow> \<exists>r1 r2 r3 r0. r = updateServer r1 r2 r3 r0"
proof (induction xs arbitrary: n)
  case Nil
  then show ?case by simp
next
  case (Cons x xs)
  obtain k0 r0 where x: "x = (k0, r0)" by (cases x)
  obtain rest n' where rest: "forEachServer rnd (n + 3) xs = (rest, n')"
    by (cases "forEachServer rnd (n + 3) xs")
  from Cons.prems have "(k, r) = (k0, updateServer (rnd n) (rnd (n + 1)) (rnd (n + 2)) r0) \<or> (k, r) \<in> set rest"
    by (simp add: x rest)
  then show ?case
  proof
    assume "(k, r) = (k0, updateServer (rnd n) (rnd (n + 1)) (rnd (n + 2)) r0)"
    then show ?thesis by blast
  next
    assume "(k, r) \<in> set rest"
    then have "(k, r) \<in> set (fst (forEachServer rnd (n + 3) xs))" by (simp add: rest)
    then show ?thesis by (rule Cons.IH)
  qed
qed

lemma ticks_Suc_right:
  "ticks rnd (Suc k) sn = updateServerStatus rnd (snd (ticks rnd k sn)) (fst (ticks rnd k sn))"
proof (induction k arbitrary: sn)
  case 0
  show ?case by (cases sn) simp
next
  case (Suc k)
  obtain st n where sn: "sn = (st, n)" by (cases sn)
  have "ticks rnd (Suc (Suc k)) sn = ticks rnd (Suc k) (updateServerStatus rnd n st)"
    by (simp add: sn)
  also have "\<dots> = updateServerStatus rnd (snd (ticks rnd k (updateServerStatus rnd n st)))
      (fst (ticks rnd k (updateServerStatus rnd n st)))"
    by (rule Suc.IH)
  also have "ticks rnd k (updateServerStatus rnd n st) = ticks rnd (Suc k) sn"
    by (simp add: sn)
  finally show ?case .
qed

lemma after_update:
  "(k, r) \<in> set (servers (fst (updateServerStatus rnd n st))) \<Longrightarrow> consistent r \<and> clamped r"
proof -
  assume "(k, r) \<in> set (servers (fst (updateServerStatus rnd n st)))"
  then have "(k, r) \<in> set (fst (forEachServer rnd n (servers st)))"
    by (simp add: updateServerStatus_def case_prod_beta)
  then obtain r1 r2 r3 r0 where "r = updateServer r1 r2 r3 r0"
    using forEachServer_all by blast
  then show ?thesis by (simp add: updateServer_consistent updateServer_clamped)
qed

lemma initial_in:
  "(k, r) \<in> set (servers (fst (initializeServers rnd n))) \<Longrightarrow>
   \<exists>R S. R < 9 \<and> S < 5 \<and> k = serverId R S \<and> r = initialRecord rnd R S (n + 15 * R + 3 * S)"
  by (auto simp: initializeServers_eq rackRecords_def) blast

lemma initialRecord_ranges:
  assumes "\<forall>i. 0 \<le> rnd i \<and> rnd i < 1"
  shows "25 \<le> temperature (initialRecord rnd R S m) \<and> temperature (initialRecord rnd R S m) \<le> 45 \<and>
    20 \<le> cpuUsage (initialRecord rnd R S m) \<and> cpuUsage (initialRecord rnd R S m) \<le> 80 \<and>
    30 \<le> memoryUsage (initialRecord rnd R S m) \<and> memoryUsage (initialRecord rnd R S m) \<le> 80"
proof -
  have a: "0 \<le> rnd m" "rnd m < 1" "0 \<le> rnd (m + 1)" "rnd (m + 1) < 1"
    "0 \<le> rnd (m + 2)" "rnd (m + 2) < 1"
    using assms by blast+
  from initial_value_range [OF a(1,2), of 20 25]
  have t: "25 \<le> fl (fl (rnd m * 20) + 25) \<and> fl (fl (rnd m * 20) + 25) \<le> 45"
    by (simp add: fl_exact_values)
  from initial_value_range [OF a(3,4), of 60 20]
  have c: "20 \<le> fl (fl (rnd (m + 1) * 60) + 20) \<and> fl (fl (rnd (m + 1) * 60) + 20) \<le> 80"
    by (simp add: fl_exact_values)
  from initial_value_range [OF a(5,6), of 50 30]
  have u: "30 \<le> fl (fl (rnd (m + 2) * 50) + 30) \<and> fl (fl (rnd (m + 2) * 50) + 30) \<le> 80"
    by (simp add: fl_exact_values)
  from t c u show ?thesis
    unfolding initialRecord_def by (simp only: ServerData.simps)
qed


lemma keys_product:
  "map fst (servers (fst (initializeServers rnd n))) =
     map (\<lambda>(R, S). serverId R S) (List.product [0..<9] [0..<5])"
  by (simp add: initializeServers_eq rackRecords_def product_concat_map map_concat comp_def)

lemma serverId_inj_on: "inj_on (\<lambda>(R, S). serverId R S) ({0..<9} \<times> {0..<5})"
proof (rule inj_onI, clarify)
  fix R S R' S'
  assume "R \<in> {0..<9::nat}" "S \<in> {0..<5::nat}" "R' \<in> {0..<9::nat}" "S' \<in> {0..<5::nat}"
    and "serverId R S = serverId R' S'"
  with serverId_inj [of R S R' S'] show "R = R' \<and> S = S'" by simp
qed

lemma grid_eq: "{0..8::nat} \<times> {0..4::nat} = {0..<9} \<times> {0..<5}"
  by auto

lemma keys_distinct: "distinct (map fst (servers (fst (initializeServers rnd n))))"
  unfolding keys_product
  by (rule distinct_map [THEN iffD2]) (simp add: distinct_product serverId_inj_on)

lemma initial_member:
  "R \<le> 8 \<Longrightarrow> S \<le> 4 \<Longrightarrow>
   (serverId R S, initialRecord rnd R S (n + 15 * R + 3 * S)) \<in> set (servers (fst (initializeServers rnd n)))"
  by (force simp: initializeServers_eq rackRecords_def)



lemma ticks_length: "length (servers (fst (ticks rnd j sn))) = length (servers (fst sn))"
proof (induction j arbitrary: sn)
  case 0
  show ?case by simp
next
  case (Suc j)
  obtain st n where sn: "sn = (st, n)" by (cases sn)
  show ?case
    by (simp add: sn Suc.IH updateServerStatus_def case_prod_beta forEachServer_length)
qed

lemma initial_length: "length (servers (fst (initializeServers rnd n))) = 45"
  using arg_cong [OF keys_product [of rnd n], of length] by simp

lemma initial_first:
  "servers (fst (initializeServers rnd n)) ! 0 = (''rack0-server0'', initialRecord rnd 0 0 n)"
  by (simp add: initializeServers_eq rackRecords_def upt_rec serverId_def string_of_digit digit_def)

section \<open>The claims about the telemetry store\<close>

text \<open>
  C1, as the specification states it: in every reachable state of the store, right
  after \<open>initializeServers\<close> and after any number of ticks, the status of every record
  is the one the threshold table gives for its three metrics.

  The statement fails right after \<open>initializeServers\<close>, which stores the status
  \<open>Normal\<close> whatever the metrics are. With \<open>Math.random()\<close> returning 0.95 the first
  record starts at 44 degrees, above the 42 degrees of the status \<open>Error\<close>.
\<close>

theorem status_inconsistent_after_initialize:
  "(''rack0-server0'',
      \<lparr> server_id = ''rack0-server0'', temperature = 44, cpuUsage = 77,
        memoryUsage = 155 / 2, status = Normal \<rparr>)
     \<in> set (servers (fst (ticks (constant_rng (19 / 20)) 0 (initializeServers (constant_rng (19 / 20)) 0))))
   \<and> \<not> consistent \<lparr> server_id = ''rack0-server0'', temperature = 44, cpuUsage = 77,
        memoryUsage = 155 / 2, status = Normal \<rparr>
   \<and> threshold_status 44 77 (155 / 2) = Error
   \<and> (0::real) \<le> 19 / 20 \<and> (19 / 20 :: real) < 1"
  by (simp add: initializeServers_eq rackRecords_def initialRecord_def constant_rng_def upt_rec
      serverId_def string_of_digit digit_def consistent_def threshold_status_def fl_exact_values)

text \<open>
  C1, amended: after at least one tick (one call of \<open>updateServerStatus\<close>), the status
  of every record of the store is the one the threshold table gives for its three
  metrics.
\<close>

theorem status_consistent_after_tick:
  "\<forall>(k, r) \<in> set (servers (fst (ticks rnd (Suc j) (initializeServers rnd n)))). consistent r"
  by (auto simp only: ticks_Suc_right dest: after_update)

theorem status_consistent_after_tick_witness:
  "consistent (snd (servers (fst (ticks (constant_rng (19 / 20)) (Suc 0)
      (initializeServers (constant_rng (19 / 20)) 0))) ! 0))
   \<and> snd (servers (fst (ticks (constant_rng (19 / 20)) (Suc 0)
      (initializeServers (constant_rng (19 / 20)) 0))) ! 0) =
     \<lparr> server_id = ''rack0-server0'', temperature = 449 / 10, cpuUsage = 163 / 2,
       memoryUsage = 319 / 4, status = Error \<rparr>"
proof -
  let ?m = "servers (fst (ticks (constant_rng (19 / 20)) (Suc 0)
      (initializeServers (constant_rng (19 / 20)) 0)))"
  have "length ?m = 45" by (simp only: ticks_length initial_length)
  then have "?m ! 0 \<in> set ?m" by simp
  with status_consistent_after_tick [of "constant_rng (19 / 20)" 0 0]
  have c: "consistent (snd (?m ! 0))" by (auto simp: case_prod_beta)
  have "?m ! 0 = fst (forEachServer (constant_rng (19 / 20))
      (snd (initializeServers (constant_rng (19 / 20)) 0))
      (servers (fst (initializeServers (constant_rng (19 / 20)) 0)))) ! 0"
    by (simp add: ticks_Suc_right updateServerStatus_def case_prod_beta)
  also have "\<dots> = (''rack0-server0'', updateServer (19 / 20) (19 / 20) (19 / 20)
      (initialRecord (constant_rng (19 / 20)) 0 0 0))"
    by (subst forEachServer_nth) (simp_all add: initial_length initial_first constant_rng_def)
  finally have "snd (?m ! 0) = updateServer (19 / 20) (19 / 20) (19 / 20)
      (initialRecord (constant_rng (19 / 20)) 0 0 0)"
    by simp
  also have "\<dots> = \<lparr> server_id = ''rack0-server0'', temperature = 449 / 10, cpuUsage = 163 / 2,
       memoryUsage = 319 / 4, status = Error \<rparr>"
    by (simp add: updateServer_eq initialRecord_def constant_rng_def threshold_status_def
        serverId_def string_of_digit digit_def fl_exact_values)
  finally show ?thesis using c by simp
qed

text \<open>
  C2: after any number of ticks, none included, every record of the store has its
  temperature in \<open>[25,45]\<close>, its CPU usage in \<open>[20,95]\<close> and its memory usage in
  \<open>[30,95]\<close>, whenever \<open>Math.random()\<close> returns values in \<open>[0,1)\<close>.
\<close>

theorem metrics_clamped:
  assumes "\<forall>i. 0 \<le> rnd i \<and> rnd i < 1"
  shows "\<forall>(k, r) \<in> set (servers (fst (ticks rnd j (initializeServers rnd n)))). clamped r"
proof (cases j)
  case 0
  { fix k r assume "(k, r) \<in> set (servers (fst (initializeServers rnd n)))"
    then obtain R S where r: "r = initialRecord rnd R S (n + 15 * R + 3 * S)"
      using initial_in by blast
    have "clamped r"
      unfolding r clamped_def
      using initialRecord_ranges [OF assms, of R S "n + 15 * R + 3 * S"] by linarith }
  then show ?thesis using 0 by auto
next
  case (Suc i)
  then show ?thesis
    by (auto simp only: ticks_Suc_right dest: after_update)
qed

theorem metrics_clamped_witness:
  "(\<forall>i. 0 \<le> constant_rng (1 / 2) i \<and> constant_rng (1 / 2) i < 1) \<and>
   clamped (snd (servers (fst (ticks (constant_rng (1 / 2)) 2
      (initializeServers (constant_rng (1 / 2)) 0))) ! 0))"
proof -
  let ?m = "servers (fst (ticks (constant_rng (1 / 2)) 2 (initializeServers (constant_rng (1 / 2)) 0)))"
  have h: "\<forall>i. 0 \<le> constant_rng (1 / 2) i \<and> constant_rng (1 / 2) i < 1"
    by (simp add: constant_rng_def)
  have "length ?m = 45" by (simp only: ticks_length initial_length)
  then have "?m ! 0 \<in> set ?m" by simp
  with metrics_clamped [OF h, of 2 0] have "clamped (snd (?m ! 0))"
    by (auto simp: case_prod_beta)
  with h show ?thesis by simp
qed



text \<open>
  C4, as the specification states it: \<open>initializeServers\<close> stores 45 records, one for
  each identifier \<open>rack<R>-server<S>\<close>, with a temperature in \<open>[25,45)\<close>, a CPU usage in
  \<open>[20,80)\<close>, a memory usage in \<open>[30,80)\<close> and the status \<open>Normal\<close>.

  The upper bounds are not excluded. With \<open>Math.random()\<close> returning the largest
  double below 1, the product \<open>Math.random() * 20\<close> is rounded to the double next to
  20, and the sum with 25 lies halfway between 45 and the double next to it: it is
  rounded to 45. The CPU usage and the memory usage are 80 in the same way. The
  temperature is 45 for the draw \<open>1 - 1 / 2 ^ 52\<close> too.
\<close>

theorem initialize_reaches_upper_bounds:
  "(0::real) \<le> 1 - 1 / 2 ^ 53 \<and> (1 - 1 / 2 ^ 53 :: real) < 1 \<and> fl (1 - 1 / 2 ^ 53) = 1 - 1 / 2 ^ 53 \<and>
   servers (fst (initializeServers (constant_rng (1 - 1 / 2 ^ 53)) 0)) ! 0 =
     (''rack0-server0'',
      \<lparr> server_id = ''rack0-server0'', temperature = 45, cpuUsage = 80, memoryUsage = 80,
        status = Normal \<rparr>) \<and>
   \<not> temperature (snd (servers (fst (initializeServers (constant_rng (1 - 1 / 2 ^ 53)) 0)) ! 0)) < 45 \<and>
   \<not> cpuUsage (snd (servers (fst (initializeServers (constant_rng (1 - 1 / 2 ^ 53)) 0)) ! 0)) < 80 \<and>
   \<not> memoryUsage (snd (servers (fst (initializeServers (constant_rng (1 - 1 / 2 ^ 53)) 0)) ! 0)) < 80 \<and>
   (0::real) \<le> 1 - 1 / 2 ^ 52 \<and> (1 - 1 / 2 ^ 52 :: real) < 1 \<and>
   temperature (snd (servers (fst (initializeServers (constant_rng (1 - 1 / 2 ^ 52)) 0)) ! 0)) = 45"
proof -
  let ?top = "servers (fst (initializeServers (constant_rng (1 - 1 / 2 ^ 53)) 0)) ! 0"
  let ?top2 = "servers (fst (initializeServers (constant_rng (1 - 1 / 2 ^ 52)) 0)) ! 0"
  have r: "initialRecord (constant_rng (1 - 1 / 2 ^ 53)) 0 0 0 =
      \<lparr> server_id = ''rack0-server0'', temperature = 45, cpuUsage = 80, memoryUsage = 80,
        status = Normal \<rparr>"
    unfolding initialRecord_def constant_rng_def
    by (simp only: fl_top_20 fl_top_45 fl_top_60 fl_top_80 fl_top_50 fl_top_80_sum)
      (simp add: serverId_def string_of_digit digit_def)
  have r2: "temperature (initialRecord (constant_rng (1 - 1 / 2 ^ 52)) 0 0 0) = 45"
    unfolding initialRecord_def constant_rng_def
    by (simp only: ServerData.simps fl_top2_20 fl_top_45)
  have c1: "(0::real) \<le> 1 - 1 / 2 ^ 53" and c2: "(1 - 1 / 2 ^ 53 :: real) < 1"
    and c8: "(0::real) \<le> 1 - 1 / 2 ^ 52" and c9: "(1 - 1 / 2 ^ 52 :: real) < 1"
    by simp_all
  have c4: "?top = (''rack0-server0'',
      \<lparr> server_id = ''rack0-server0'', temperature = 45, cpuUsage = 80, memoryUsage = 80,
        status = Normal \<rparr>)"
    by (simp only: initial_first r)
  have c5: "\<not> temperature (snd ?top) < 45" and c6: "\<not> cpuUsage (snd ?top) < 80"
    and c7: "\<not> memoryUsage (snd ?top) < 80"
    unfolding c4 by simp_all
  have c10: "temperature (snd ?top2) = 45"
    by (simp only: initial_first snd_conv r2)
  from c1 c2 fl_below_one c4 c5 c6 c7 c8 c9 c10 show ?thesis by blast
qed

text \<open>
  C4, amended: \<open>initializeServers\<close> stores exactly 45 records. Their keys are the
  identifiers \<open>rack<R>-server<S>\<close> for \<open>R\<close> from 0 to 8 and \<open>S\<close> from 0 to 4, each pair
  once. Each record carries its key as its identifier, takes three draws of
  \<open>Math.random()\<close> that no other record takes, has its temperature in \<open>[25,45]\<close>, its
  CPU usage in \<open>[20,80]\<close> and its memory usage in \<open>[30,80]\<close>, bounds included, and the
  status \<open>Normal\<close>.
\<close>

theorem initialize_45_records:
  assumes "\<forall>i. 0 \<le> rnd i \<and> rnd i < 1"
  shows "length (servers (fst (initializeServers rnd n))) = 45 \<and>
    distinct (map fst (servers (fst (initializeServers rnd n)))) \<and>
    set (map fst (servers (fst (initializeServers rnd n)))) = (\<lambda>(R, S). serverId R S) ` ({0..8} \<times> {0..4}) \<and>
    inj_on (\<lambda>(R, S). serverId R S) ({0..8} \<times> {0..4}) \<and>
    (\<forall>R \<le> 8. \<forall>S \<le> 4.
       map_of (servers (fst (initializeServers rnd n))) (serverId R S) =
         Some \<lparr> server_id = serverId R S,
                temperature = fl (fl (rnd (n + 15 * R + 3 * S) * 20) + 25),
                cpuUsage = fl (fl (rnd (n + 15 * R + 3 * S + 1) * 60) + 20),
                memoryUsage = fl (fl (rnd (n + 15 * R + 3 * S + 2) * 50) + 30),
                status = Normal \<rparr>) \<and>
    (\<forall>(k, r) \<in> set (servers (fst (initializeServers rnd n))).
       server_id r = k \<and> 25 \<le> temperature r \<and> temperature r \<le> 45 \<and>
       20 \<le> cpuUsage r \<and> cpuUsage r \<le> 80 \<and> 30 \<le> memoryUsage r \<and> memoryUsage r \<le> 80 \<and>
       status r = Normal)"
proof -
  let ?m = "servers (fst (initializeServers rnd n))"
  have keys: "set (map fst ?m) = (\<lambda>(R, S). serverId R S) ` ({0..8} \<times> {0..4})"
    unfolding keys_product grid_eq by simp
  have look: "map_of ?m (serverId R S) = Some (initialRecord rnd R S (n + 15 * R + 3 * S))"
    if "R \<le> 8" "S \<le> 4" for R S
    using keys_distinct initial_member [OF that] by (rule map_of_is_SomeI)
  have rng: "server_id r = k \<and> 25 \<le> temperature r \<and> temperature r \<le> 45 \<and>
       20 \<le> cpuUsage r \<and> cpuUsage r \<le> 80 \<and> 30 \<le> memoryUsage r \<and> memoryUsage r \<le> 80 \<and>
       status r = Normal" if "(k, r) \<in> set ?m" for k r
  proof -
    from that obtain R S where k: "k = serverId R S"
      and r: "r = initialRecord rnd R S (n + 15 * R + 3 * S)"
      using initial_in by blast
    have "server_id r = k" "status r = Normal" by (simp_all add: k r initialRecord_def)
    with initialRecord_ranges [OF assms, of R S "n + 15 * R + 3 * S"] show ?thesis
      unfolding r by blast
  qed
  from look have look': "\<forall>R \<le> 8. \<forall>S \<le> 4.
       map_of ?m (serverId R S) =
         Some \<lparr> server_id = serverId R S,
                temperature = fl (fl (rnd (n + 15 * R + 3 * S) * 20) + 25),
                cpuUsage = fl (fl (rnd (n + 15 * R + 3 * S + 1) * 60) + 20),
                memoryUsage = fl (fl (rnd (n + 15 * R + 3 * S + 2) * 50) + 30),
                status = Normal \<rparr>"
    by (simp add: initialRecord_def)
  from rng have rng': "\<forall>(k, r) \<in> set ?m.
       server_id r = k \<and> 25 \<le> temperature r \<and> temperature r \<le> 45 \<and>
       20 \<le> cpuUsage r \<and> cpuUsage r \<le> 80 \<and> 30 \<le> memoryUsage r \<and> memoryUsage r \<le> 80 \<and>
       status r = Normal"
    by blast
  from initial_length keys_distinct keys serverId_inj_on [folded grid_eq] look' rng'
  show ?thesis by blast
qed

theorem initialize_45_records_witness:
  "(\<forall>i. 0 \<le> constant_rng (1 / 2) i \<and> constant_rng (1 / 2) i < 1) \<and>
   length (servers (fst (initializeServers (constant_rng (1 / 2)) 0))) = 45 \<and>
   map_of (servers (fst (initializeServers (constant_rng (1 / 2)) 0))) ''rack8-server4'' =
     Some \<lparr> server_id = ''rack8-server4'', temperature = 35, cpuUsage = 50, memoryUsage = 55,
            status = Normal \<rparr>"
proof -
  have h: "\<forall>i. 0 \<le> constant_rng (1 / 2) i \<and> constant_rng (1 / 2) i < 1"
    by (simp add: constant_rng_def)
  have s: "serverId 8 4 = ''rack8-server4''"
    by (simp add: serverId_def string_of_digit digit_def)
  from initialize_45_records [OF h, of 0]
  have "length (servers (fst (initializeServers (constant_rng (1 / 2)) 0))) = 45"
    and "map_of (servers (fst (initializeServers (constant_rng (1 / 2)) 0))) (serverId 8 4) =
         Some \<lparr> server_id = serverId 8 4,
                temperature = fl (fl (constant_rng (1 / 2) (0 + 15 * 8 + 3 * 4) * 20) + 25),
                cpuUsage = fl (fl (constant_rng (1 / 2) (0 + 15 * 8 + 3 * 4 + 1) * 60) + 20),
                memoryUsage = fl (fl (constant_rng (1 / 2) (0 + 15 * 8 + 3 * 4 + 2) * 50) + 30),
                status = Normal \<rparr>"
    by simp_all
  with h show ?thesis by (simp add: s constant_rng_def fl_exact_values)
qed

text \<open>
  C9: \<open>getServerData\<close> returns a result for every identifier and leaves the store as
  it was: the record stored under the identifier, or \<open>undefined\<close> (\<open>None\<close>) when the
  store holds no record for it. No call raises an error.
\<close>

theorem getServerData_total:
  "snd (getServerData st k) = st \<and>
   fst (getServerData st k) =
     (if k \<in> fst ` set (servers st) then Some (snd (the (find (\<lambda>e. fst e = k) (servers st))))
      else None)"
proof -
  have "map_of m k = (if k \<in> fst ` set m then Some (snd (the (find (\<lambda>e. fst e = k) m))) else None)"
    for m :: "(string \<times> ServerData) list"
    by (induction m) auto
  then show ?thesis by (simp add: getServerData_def)
qed

section \<open>The scene: writes to materials and the pointer handlers\<close>

lemma setOpacity_Inr:
  "setOpacity p a s = Inr s' \<longleftrightarrow>
     materials s p \<noteq> None \<and> s' = restyle (\<lambda>q m. if q = p then m\<lparr> opacity := a \<rparr> else m) s"
  by (auto simp: setOpacity_def restyle_def fun_eq_iff option.map_ident split: option.splits intro!: DataCenter.equality)

lemma setWireframe_Inr:
  "setWireframe p w s = Inr s' \<longleftrightarrow>
     materials s p \<noteq> None \<and> s' = restyle (\<lambda>q m. if q = p then m\<lparr> wireframe := w \<rparr> else m) s"
  by (auto simp: setWireframe_def restyle_def fun_eq_iff option.map_ident split: option.splits intro!: DataCenter.equality)

lemma setOpacity_Inl: "setOpacity p a s = Inl e \<longleftrightarrow> materials s p = None"
  by (cases e) (auto simp: setOpacity_def split: option.splits)

lemma setWireframe_Inl: "setWireframe p w s = Inl e \<longleftrightarrow> materials s p = None"
  by (cases e) (auto simp: setWireframe_def split: option.splits)

lemma restyle_fields [simp]:
  "serverStatus (restyle f s) = serverStatus s"
  "servers_dc (restyle f s) = servers_dc s"
  "racks (restyle f s) = racks s"
  "scene (restyle f s) = scene s"
  "selectedServer (restyle f s) = selectedServer s"
  "hoveredRack (restyle f s) = hoveredRack s"
  "hoveredServer (restyle f s) = hoveredServer s"
  "info (restyle f s) = info s"
  "materials (restyle f s) q = map_option (f q) (materials s q)"
  by (simp_all add: restyle_def)

lemma restyle_restyle: "restyle g (restyle f s) = restyle (\<lambda>q m. g q (f q m)) s"
  by (simp add: restyle_def fun_eq_iff option.map_comp comp_def)

lemma restyle_hoveredRack: "restyle f (s\<lparr> hoveredRack := r \<rparr>) = (restyle f s)\<lparr> hoveredRack := r \<rparr>"
  and restyle_hoveredServer: "restyle f (s\<lparr> hoveredServer := h \<rparr>) = (restyle f s)\<lparr> hoveredServer := h \<rparr>"
  and restyle_selectedServer: "restyle f (s\<lparr> selectedServer := h \<rparr>) = (restyle f s)\<lparr> selectedServer := h \<rparr>"
  by (simp_all add: restyle_def)

lemma js_error_eq: "(e :: js_error) = e'"
  by (cases e, cases e') simp

lemma restyle_eqI:
  "(\<And>q m. materials s q = Some m \<Longrightarrow> f q m = g q m) \<Longrightarrow> restyle f s = restyle g s"
proof -
  assume a: "\<And>q m. materials s q = Some m \<Longrightarrow> f q m = g q m"
  have "map_option (f q) (materials s q) = map_option (g q) (materials s q)" for q
    by (cases "materials s q") (simp_all add: a)
  then show ?thesis by (simp add: restyle_def)
qed

lemma restyle_idI:
  "(\<And>q m. materials s q = Some m \<Longrightarrow> f q m = m) \<Longrightarrow> restyle f s = s"
proof -
  assume a: "\<And>q m. materials s q = Some m \<Longrightarrow> f q m = m"
  have "map_option (f q) (materials s q) = materials s q" for q
    by (cases "materials s q") (simp_all add: a)
  then show ?thesis by (simp add: restyle_def)
qed

text \<open>The clear pass in closed form.\<close>

lemma clearHover_eq:
  "clearHover s = (if clearOk s then Inr (restyle (clearStyle s) s) else Inl TypeError)"
  unfolding clearHover_def clearOk_def
  by (auto split: option.splits sum.splits
      simp: setOpacity_Inr setWireframe_Inr setOpacity_Inl setWireframe_Inl restyle_restyle
        hoveredCase_def clearStyle_def js_error_eq
      intro!: restyle_eqI restyle_idI [symmetric])

lemma show_fields [simp]:
  "selectedServer (showDefaultInfo s) = selectedServer s"
  "selectedServer (showRackInfo i s) = selectedServer s"
  "selectedServer (showServerInfo d s) = selectedServer s"
  "materials (showDefaultInfo s) = materials s"
  "materials (showRackInfo i s) = materials s"
  "materials (showServerInfo d s) = materials s"
  "scene (showDefaultInfo s) = scene s"
  "scene (showRackInfo i s) = scene s"
  "scene (showServerInfo d s) = scene s"
  "servers_dc (showDefaultInfo s) = servers_dc s"
  "servers_dc (showRackInfo i s) = servers_dc s"
  "servers_dc (showServerInfo d s) = servers_dc s"
  "serverStatus (showDefaultInfo s) = serverStatus s"
  "serverStatus (showRackInfo i s) = serverStatus s"
  "serverStatus (showServerInfo d s) = serverStatus s"
  by (simp_all add: showDefaultInfo_def showRackInfo_def showServerInfo_def split: option.splits)

lemma show_hover_fields [simp]:
  "hoveredRack (showDefaultInfo s) = hoveredRack s"
  "hoveredRack (showRackInfo i s) = hoveredRack s"
  "hoveredRack (showServerInfo d s) = hoveredRack s"
  "hoveredServer (showDefaultInfo s) = hoveredServer s"
  "hoveredServer (showRackInfo i s) = hoveredServer s"
  "hoveredServer (showServerInfo d s) = hoveredServer s"
  by (simp_all add: showDefaultInfo_def showRackInfo_def showServerInfo_def split: option.splits)

lemma hoverTarget_selected:
  assumes "hoverTarget s t = Inr s'"
  shows "selectedServer s' = selectedServer s \<and>
    (\<forall>q. selectedServer s = Some q \<longrightarrow>
       map_option wireframe (materials s' q) = map_option wireframe (materials s q))"
  using assms unfolding hoverTarget_def
  by (auto split: option.splits sum.splits if_splits
      simp: setOpacity_Inr setWireframe_Inr restyle_hoveredRack restyle_hoveredServer
        option.map_comp comp_def)

lemma clearHover_selected:
  assumes "clearHover s = Inr s'"
  shows "selectedServer s' = selectedServer s \<and>
    (\<forall>q. selectedServer s = Some q \<longrightarrow>
       map_option wireframe (materials s' q) = map_option wireframe (materials s q))"
  using assms unfolding clearHover_eq
  by (auto split: if_splits simp: clearStyle_def option.map_comp comp_def)

lemma handleMouseMove_selected:
  assumes "handleMouseMove s intersects = Inr s'"
  shows "selectedServer s' = selectedServer s \<and>
    (\<forall>q. selectedServer s = Some q \<longrightarrow>
       map_option wireframe (materials s' q) = map_option wireframe (materials s q))"
proof -
  from assms obtain c where c: "clearHover s = Inr c" and a: "applyHover c intersects = Inr s'"
    by (auto simp: handleMouseMove_def split: sum.splits)
  have "selectedServer s' = selectedServer c \<and>
    (\<forall>q. selectedServer c = Some q \<longrightarrow>
       map_option wireframe (materials s' q) = map_option wireframe (materials c q))"
  proof (cases intersects)
    case Nil
    with a show ?thesis by (auto simp: applyHover_def)
  next
    case (Cons io far)
    with a obtain t where "hoverTarget c t = Inr s'"
      by (auto simp: applyHover_def split: sum.splits)
    then show ?thesis by (rule hoverTarget_selected)
  qed
  with clearHover_selected [OF c] show ?thesis by simp
qed

lemma pointerMoves_selected:
  assumes "pointerMoves s events = Inr s'"
  shows "selectedServer s' = selectedServer s \<and>
    (\<forall>q. selectedServer s = Some q \<longrightarrow>
       map_option wireframe (materials s' q) = map_option wireframe (materials s q))"
  using assms
proof (induction events arbitrary: s)
  case Nil
  then show ?case by simp
next
  case (Cons intersects later)
  then obtain s1 where 1: "handleMouseMove s intersects = Inr s1" and 2: "pointerMoves s1 later = Inr s'"
    by (auto split: sum.splits)
  from handleMouseMove_selected [OF 1] Cons.IH [OF 2] show ?case by simp
qed

lemma lookup_snoc:
  "lookup t (p @ [i]) =
     (case lookup t p of
        None \<Rightarrow> None
      | Some n \<Rightarrow> if i < length (children n) then Some (children n ! i) else None)"
  by (induction p arbitrary: t) auto

lemma singleRackCase_lookup: "singleRackCase t \<Longrightarrow> lookup t p = Some n \<Longrightarrow> singleRackCase n"
proof (induction p arbitrary: t)
  case Nil
  then show ?case by simp
next
  case (Cons i p)
  obtain k u m cs where t: "t = Obj k u m cs" by (cases t)
  from Cons.prems(2) have i: "i < length cs" and l: "lookup (cs ! i) p = Some n"
    by (auto simp: t split: if_splits)
  from Cons.prems(1) i have "singleRackCase (cs ! i)"
    by (simp add: t list_all_length)
  then show ?case using l by (rule Cons.IH)
qed

lemma findIndex_unique:
  "length (filter P cs) \<le> 1 \<Longrightarrow> i < length cs \<Longrightarrow> P (cs ! i) \<Longrightarrow> findIndex P cs = Some i"
proof (induction cs arbitrary: i)
  case Nil
  then show ?case by simp
next
  case (Cons x xs)
  show ?case
  proof (cases "P x")
    case True
    with Cons.prems(1) have e: "filter P xs = []" by simp
    have "i = 0"
    proof (rule ccontr)
      assume "i \<noteq> 0"
      then obtain j where j: "i = Suc j" by (cases i) auto
      with Cons.prems have "xs ! j \<in> set xs" "P (xs ! j)" by auto
      with e show False by (auto simp: filter_empty_conv)
    qed
    with True show ?thesis by simp
  next
    case False
    with Cons.prems(3) obtain j where j: "i = Suc j" by (cases i) auto
    from False Cons.prems j have "findIndex P xs = Some j"
      by (intro Cons.IH) auto
    with False j show ?thesis by simp
  qed
qed

lemma parent_Some: "parent t = Some r \<longleftrightarrow> t \<noteq> [] \<and> r = butlast t"
  by (auto simp: parent_def)

lemma hoveredCase_target:
  assumes one: "singleRackCase (scene s)"
    and t: "lookup (scene s) t = Some n" and f: "ud_isRackCase (userData n)"
    and r: "hoveredRack s = Some r" "parent t = Some r"
  shows "hoveredCase s = Some t"
proof -
  from r have t': "t = r @ [last t]" by (simp add: parent_Some)
  with t have "lookup (scene s) (r @ [last t]) = Some n" by simp
  then obtain rack where rack: "lookup (scene s) r = Some rack"
    and i: "last t < length (children rack)" and n: "children rack ! last t = n"
    by (auto simp: lookup_snoc split: option.splits if_splits)
  from one rack have "singleRackCase rack" by (rule singleRackCase_lookup)
  then have "length (filter (\<lambda>child. ud_isRackCase (userData child)) (children rack)) \<le> 1"
    by (cases rack) simp
  from findIndex_unique [OF this i] f n
  have "findIndex (\<lambda>child. ud_isRackCase (userData child)) (children rack) = Some (last t)"
    by simp
  with r rack t' show ?thesis by (simp add: hoveredCase_def)
qed

lemma hoveredCase_cong:
  "hoveredRack s' = hoveredRack s \<Longrightarrow> scene s' = scene s \<Longrightarrow> hoveredCase s' = hoveredCase s"
  by (simp add: hoveredCase_def cong: option.case_cong)

lemma restyle_id: "restyle (\<lambda>q m. m) s = s"
  by (rule restyle_idI) simp

text \<open>The branch on the target in closed form.\<close>

lemma hoverTarget_rack:
  assumes "lookup (scene s) t = Some n" "ud_isRackCase (userData n)"
  shows "hoverTarget s t = Inr s' \<longleftrightarrow>
    (\<exists>r rack. parent t = Some r \<and> lookup (scene s) r = Some rack \<and> materials s t \<noteq> None \<and>
       s' = showRackInfo (ud_rackIndex (userData rack))
              (restyle (\<lambda>q m. if q = t then m\<lparr> opacity := 0.7 \<rparr> else m) (s\<lparr> hoveredRack := Some r \<rparr>)))"
  using assms unfolding hoverTarget_def
  by (auto split: option.splits sum.splits simp: setOpacity_Inr setOpacity_Inl restyle_hoveredRack)

lemma hoverTarget_server:
  assumes "lookup (scene s) t = Some n" "\<not> ud_isRackCase (userData n)" "truthy (ud_id (userData n))"
  shows "hoverTarget s t = Inr s' \<longleftrightarrow>
    (selectedServer s = Some t \<or> materials s t \<noteq> None) \<and>
    s' = (case fst (getServerData (serverStatus s) (the (ud_id (userData n)))) of
            None \<Rightarrow> (\<lambda>x. x) | Some d \<Rightarrow> showServerInfo d)
           (restyle (\<lambda>q m. if q = t \<and> selectedServer s \<noteq> Some t then m\<lparr> wireframe := True \<rparr> else m)
              (s\<lparr> hoveredServer := Some t \<rparr>))"
  using assms unfolding hoverTarget_def
  by (auto split: option.splits sum.splits
      simp: setWireframe_Inr setWireframe_Inl restyle_hoveredServer restyle_id)

lemma hoverTarget_other:
  assumes "lookup (scene s) t = Some n" "\<not> ud_isRackCase (userData n)" "\<not> truthy (ud_id (userData n))"
  shows "hoverTarget s t = Inr s"
  using assms unfolding hoverTarget_def by simp

lemma show_more_fields [simp]:
  "racks (showDefaultInfo s) = racks s"
  "racks (showRackInfo i s) = racks s"
  "racks (showServerInfo d s) = racks s"
  "info (showDefaultInfo s) = map_option (\<lambda>old. Legend) (info s)"
  "info (showRackInfo i s) = map_option (\<lambda>old. RackList i (rackRoster (serverStatus s) i 0 [])) (info s)"
  "info (showServerInfo d s) = map_option (\<lambda>old. ServerDetail d) (info s)"
  by (simp_all add: showDefaultInfo_def showRackInfo_def showServerInfo_def split: option.splits)

lemma state_eqI:
  fixes a b :: DataCenter
  assumes "serverStatus a = serverStatus b" "servers_dc a = servers_dc b" "racks a = racks b"
    "scene a = scene b" "\<And>q. materials a q = materials b q" "selectedServer a = selectedServer b"
    "hoveredRack a = hoveredRack b" "hoveredServer a = hoveredServer b" "info a = info b"
  shows "a = b"
proof -
  from assms(5) have "materials a = materials b" by (simp add: fun_eq_iff)
  with assms show ?thesis by (intro DataCenter.equality) simp_all
qed

lemma clearStyle_idem:
  assumes "hoveredCase s' = hoveredCase s" "selectedServer s' = selectedServer s"
    "hoveredServer s' = hoveredServer s"
  shows "clearStyle s' q (clearStyle s q m) = clearStyle s q m"
  using assms by (simp add: clearStyle_def)

lemma handleMouseMove_idem:
  assumes run: "handleMouseMove s intersects = Inr s1" and one: "singleRackCase (scene s)"
  shows "handleMouseMove s1 intersects = Inr s1"
proof -
  let ?c = "restyle (clearStyle s) s"
  from run have ok: "clearOk s" and a: "applyHover ?c intersects = Inr s1"
    by (auto simp: handleMouseMove_def clearHover_eq split: if_splits)
  let ?c1 = "restyle (clearStyle s1) s1"
  have goal: "handleMouseMove s1 intersects = Inr s1"
    if "clearOk s1" "applyHover ?c1 intersects = Inr s1"
    using that by (simp add: handleMouseMove_def clearHover_eq)
  show ?thesis
  proof (cases intersects)
    case Nil
    with a have s1: "s1 = showDefaultInfo (?c\<lparr> hoveredRack := None, hoveredServer := None \<rparr>)"
      by (simp add: applyHover_def)
    have h: "hoveredRack s1 = None" "hoveredServer s1 = None" by (simp_all add: s1)
    then have ok1: "clearOk s1" by (simp add: clearOk_def hoveredCase_def)
    have id: "?c1 = s1"
      by (rule restyle_idI) (simp add: clearStyle_def hoveredCase_def h)
    have "showDefaultInfo (s1\<lparr> hoveredRack := None, hoveredServer := None \<rparr>) = s1"
      by (rule state_eqI) (simp_all add: h, simp_all add: s1 option.map_comp comp_def)
    with Nil ok1 id show ?thesis by (intro goal) (simp_all add: applyHover_def)
  next
    case (Cons io far)
    with a obtain t where res: "resolveTarget (scene s) (servers_dc s) io = Inr t"
      and ht: "hoverTarget ?c t = Inr s1"
      by (auto simp: applyHover_def split: sum.splits)
    from ht obtain n where n: "lookup (scene s) t = Some n"
      by (auto simp: hoverTarget_def split: option.splits)
    have again: "handleMouseMove s1 intersects = Inr s1"
      if "clearOk s1" "scene s1 = scene s" "servers_dc s1 = servers_dc s" "hoverTarget ?c1 t = Inr s1"
      using that res Cons by (intro goal) (simp_all add: applyHover_def)
    consider (rack) "ud_isRackCase (userData n)"
      | (server) "\<not> ud_isRackCase (userData n)" "truthy (ud_id (userData n))"
      | (other) "\<not> ud_isRackCase (userData n)" "\<not> truthy (ud_id (userData n))"
      by blast
    then show ?thesis
    proof cases
      case rack
      from ht n rack obtain r rackn where p: "parent t = Some r"
        and rackn: "lookup (scene s) r = Some rackn" and mt: "materials s t \<noteq> None"
        and s1: "s1 = showRackInfo (ud_rackIndex (userData rackn))
              (restyle (\<lambda>q m. if q = t then m\<lparr> opacity := 0.7 \<rparr> else m) (?c\<lparr> hoveredRack := Some r \<rparr>))"
        using hoverTarget_rack [of ?c t n s1] by auto
      have f: "scene s1 = scene s" "servers_dc s1 = servers_dc s" "hoveredRack s1 = Some r"
        "hoveredServer s1 = hoveredServer s" "selectedServer s1 = selectedServer s"
        "serverStatus s1 = serverStatus s"
        by (simp_all add: s1)
      have m1: "materials s1 q = map_option (\<lambda>m. (if q = t then (clearStyle s q m)\<lparr> opacity := 0.7 \<rparr>
          else clearStyle s q m)) (materials s q)" for q
        by (simp add: s1 option.map_comp comp_def)
      have hc: "hoveredCase s1 = Some t"
        by (rule hoveredCase_target [where n = n and r = r]) (use one n rack p f in simp_all)
      have ok1: "clearOk s1"
        using ok mt rackn by (auto simp: clearOk_def hc f m1 split: option.splits)
      have n1: "lookup (scene ?c1) t = Some n" by (simp add: f n)
      have eq: "s1 = showRackInfo (ud_rackIndex (userData rackn))
              (restyle (\<lambda>q m. if q = t then m\<lparr> opacity := 0.7 \<rparr> else m) (?c1\<lparr> hoveredRack := Some r \<rparr>))"
      proof (rule state_eqI)
        fix q
        show "materials s1 q = materials (showRackInfo (ud_rackIndex (userData rackn))
              (restyle (\<lambda>q m. if q = t then m\<lparr> opacity := 0.7 \<rparr> else m) (?c1\<lparr> hoveredRack := Some r \<rparr>))) q"
          by (cases "materials s q") (simp_all add: m1 clearStyle_def hc f)
      qed (simp_all add: f, simp_all add: s1 option.map_comp comp_def)
      have "hoverTarget ?c1 t = Inr s1"
        unfolding hoverTarget_rack [OF n1 rack]
        using p rackn mt eq by (auto simp: f m1)
      with ok1 f show ?thesis by (intro again)
    next
      case server
      let ?view = "case fst (getServerData (serverStatus s) (the (ud_id (userData n)))) of
            None \<Rightarrow> (\<lambda>x. x) | Some d \<Rightarrow> showServerInfo d"
      have nc: "lookup (scene ?c) t = Some n" by (simp add: n)
      from ht have mt: "selectedServer s = Some t \<or> materials s t \<noteq> None"
        and s1: "s1 = ?view
           (restyle (\<lambda>q m. if q = t \<and> selectedServer s \<noteq> Some t then m\<lparr> wireframe := True \<rparr> else m)
              (?c\<lparr> hoveredServer := Some t \<rparr>))"
        unfolding hoverTarget_server [OF nc server] by simp_all
      have f: "scene s1 = scene s" "servers_dc s1 = servers_dc s" "hoveredRack s1 = hoveredRack s"
        "hoveredServer s1 = Some t" "selectedServer s1 = selectedServer s"
        "serverStatus s1 = serverStatus s"
        by (simp_all add: s1 split: option.splits)
      have m1: "materials s1 q = map_option (\<lambda>m. (if q = t \<and> selectedServer s \<noteq> Some t
          then (clearStyle s q m)\<lparr> wireframe := True \<rparr> else clearStyle s q m)) (materials s q)" for q
        by (simp add: s1 option.map_comp comp_def split: option.splits)
      have hc: "hoveredCase s1 = hoveredCase s"
        by (rule hoveredCase_cong) (simp_all add: f)
      have ok1: "clearOk s1"
        using ok mt by (auto simp: clearOk_def hc f m1 split: option.splits)
      have n1: "lookup (scene ?c1) t = Some n" by (simp add: f n)
      have eq: "s1 = ?view
           (restyle (\<lambda>q m. if q = t \<and> selectedServer s \<noteq> Some t then m\<lparr> wireframe := True \<rparr> else m)
              (?c1\<lparr> hoveredServer := Some t \<rparr>))"
      proof (rule state_eqI)
        fix q
        show "materials s1 q = materials (?view
           (restyle (\<lambda>q m. if q = t \<and> selectedServer s \<noteq> Some t then m\<lparr> wireframe := True \<rparr> else m)
              (?c1\<lparr> hoveredServer := Some t \<rparr>))) q"
        proof (cases "materials s q")
          case None
          then show ?thesis by (simp add: m1 split: option.splits)
        next
          case (Some a)
          have v: "materials (?view X) q = materials X q" for X
            by (simp split: option.splits)
          show ?thesis
            unfolding v using Some by (cases "q = t") (auto simp: m1 clearStyle_def hc f)
        qed
      qed (simp_all add: f split: option.splits, simp_all add: s1 option.map_comp comp_def split: option.splits)
      have "hoverTarget ?c1 t = Inr s1"
        unfolding hoverTarget_server [OF n1 server]
        using mt eq by (auto simp: f m1)
      with ok1 f show ?thesis by (intro again)
    next
      case other
      have nc: "lookup (scene ?c) t = Some n" by (simp add: n)
      from ht have s1: "s1 = ?c"
        unfolding hoverTarget_other [OF nc other] by simp
      have f: "scene s1 = scene s" "servers_dc s1 = servers_dc s" "hoveredRack s1 = hoveredRack s"
        "hoveredServer s1 = hoveredServer s" "selectedServer s1 = selectedServer s"
        by (simp_all add: s1)
      have hc: "hoveredCase s1 = hoveredCase s"
        by (rule hoveredCase_cong) (simp_all add: f)
      have m1: "materials s1 q = map_option (clearStyle s q) (materials s q)" for q
        by (simp add: s1)
      have ok1: "clearOk s1"
        using ok by (auto simp: clearOk_def hc f m1 split: option.splits)
      have id: "?c1 = s1"
      proof (rule restyle_idI)
        fix q m assume "materials s1 q = Some m"
        then obtain m0 where "m = clearStyle s q m0" by (auto simp: s1)
        then show "clearStyle s1 q m = m" by (simp add: clearStyle_idem hc f)
      qed
      have n1: "lookup (scene s1) t = Some n" by (simp add: f n)
      have "hoverTarget ?c1 t = Inr s1"
        unfolding id by (rule hoverTarget_other [OF n1 other])
      with ok1 f show ?thesis by (intro again)
    qed
  qed
qed

lemma walkParents_mesh:
  assumes "lookup t m = Some n" "kind n = Mesh" "truthy (ud_id (userData n))"
  shows "walkParents t registered x (Some m) = Inr m"
  using assms by (simp add: walkParents.simps)

lemma walkParents_plain:
  assumes "lookup t p = Some a" "plain registered a"
  shows "walkParents t registered x (Some p) = walkParents t registered x (parent p)"
  using assms by (auto simp: walkParents.simps plain_def split: option.splits)

lemma walkParents_nested:
  assumes m: "lookup t m = Some n" "kind n = Mesh" "truthy (ud_id (userData n))"
    and mid: "\<forall>k. 0 < k \<and> k \<le> length q \<longrightarrow> (\<exists>a. lookup t (m @ take k q) = Some a \<and> plain registered a)"
  shows "walkParents t registered x (Some (m @ q)) = Inr m"
  using mid
proof (induction q rule: rev_induct)
  case Nil
  from m show ?case by (simp add: walkParents_mesh)
next
  case (snoc i q)
  from snoc.prems [rule_format, of "Suc (length q)"]
  obtain a where a: "lookup t (m @ q @ [i]) = Some a" "plain registered a" by auto
  have "\<forall>k. 0 < k \<and> k \<le> length q \<longrightarrow> (\<exists>a. lookup t (m @ take k q) = Some a \<and> plain registered a)"
  proof (intro allI impI)
    fix k assume k: "0 < k \<and> k \<le> length q"
    with snoc.prems [rule_format, of k] show "\<exists>a. lookup t (m @ take k q) = Some a \<and> plain registered a"
      by simp
  qed
  then have ih: "walkParents t registered x (Some (m @ q)) = Inr m" by (rule snoc.IH)
  have "parent (m @ q @ [i]) = Some (m @ q)"
    by (simp add: parent_def butlast_append)
  with walkParents_plain [OF a, of x] ih show ?case by simp
qed

lemma resolve_nested_server:
  assumes m: "lookup (scene s) m = Some n" "kind n = Mesh" "truthy (ud_id (userData n))"
      "\<not> ud_isRackCase (userData n)"
    and q: "q \<noteq> []"
    and mid: "\<forall>k. 0 < k \<and> k < length q \<longrightarrow>
        (\<exists>a. lookup (scene s) (m @ take k q) = Some a \<and> plain (servers_dc s) a)"
    and ok: "clearOk s" "materials s m \<noteq> None"
  shows "resolveTarget (scene s) (servers_dc s) (m @ q) = Inr m \<and>
    (\<exists>s'. handleMouseMove s ((m @ q) # farther) = Inr s' \<and>
       hoveredServer s' = Some m \<and> hoveredRack s' = hoveredRack s \<and>
       (selectedServer s \<noteq> Some m \<longrightarrow> map_option wireframe (materials s' m) = Some True) \<and>
       (\<forall>d. fst (getServerData (serverStatus s) (the (ud_id (userData n)))) = Some d \<longrightarrow>
          info s' = map_option (\<lambda>old. ServerDetail d) (info s)))"
proof -
  from q have p: "parent (m @ q) = Some (m @ butlast q)"
    by (simp add: parent_def butlast_append)
  have "\<forall>k. 0 < k \<and> k \<le> length (butlast q) \<longrightarrow>
      (\<exists>a. lookup (scene s) (m @ take k (butlast q)) = Some a \<and> plain (servers_dc s) a)"
  proof (intro allI impI)
    fix k assume k: "0 < k \<and> k \<le> length (butlast q)"
    with q have "k < length q" by (cases q rule: rev_cases) auto
    moreover from k have "take k (butlast q) = take k q"
      by (simp add: take_butlast \<open>k < length q\<close>)
    ultimately show "\<exists>a. lookup (scene s) (m @ take k (butlast q)) = Some a \<and> plain (servers_dc s) a"
      using mid k by simp
  qed
  with m have res: "resolveTarget (scene s) (servers_dc s) (m @ q) = Inr m"
    unfolding resolveTarget_def p by (intro walkParents_nested)
  let ?c = "restyle (clearStyle s) s"
  let ?view = "case fst (getServerData (serverStatus s) (the (ud_id (userData n)))) of
            None \<Rightarrow> (\<lambda>x. x) | Some d \<Rightarrow> showServerInfo d"
  let ?s' = "?view
     (restyle (\<lambda>q m'. if q = m \<and> selectedServer s \<noteq> Some m then m'\<lparr> wireframe := True \<rparr> else m')
        (?c\<lparr> hoveredServer := Some m \<rparr>))"
  have nc: "lookup (scene ?c) m = Some n" by (simp add: m)
  have "hoverTarget ?c m = Inr ?s'"
    unfolding hoverTarget_server [OF nc m(4) m(3)] using ok by simp
  with res ok have run: "handleMouseMove s ((m @ q) # farther) = Inr ?s'"
    by (simp add: handleMouseMove_def clearHover_eq applyHover_def)
  from ok(2) obtain mm where mm: "materials s m = Some mm" by auto
  have "hoveredServer ?s' = Some m" "hoveredRack ?s' = hoveredRack s"
    "selectedServer s \<noteq> Some m \<longrightarrow> map_option wireframe (materials ?s' m) = Some True"
    "\<forall>d. fst (getServerData (serverStatus s) (the (ud_id (userData n)))) = Some d \<longrightarrow>
          info ?s' = map_option (\<lambda>old. ServerDetail d) (info s)"
    by (simp_all add: mm split: option.splits)
  with res run show ?thesis by blast
qed

lemma updateMesh_frame:
  assumes "updateMesh k m s = Inr s'"
  shows "serverStatus s' = serverStatus s \<and> scene s' = scene s \<and> servers_dc s' = servers_dc s \<and>
    (\<forall>q. (materials s' q = None \<longleftrightarrow> materials s q = None) \<and>
         (q \<noteq> m @ [0] \<longrightarrow> map_option color (materials s' q) = map_option color (materials s q)))"
  using assms unfolding updateMesh_def Let_def
  by (auto split: option.splits list.splits if_splits)

lemma updateMesh_light:
  assumes "updateMesh k m s = Inr s'"
    and "fst (getServerData (serverStatus s) k) = Some d"
    and "lookup (scene s) m = Some n" "children n \<noteq> []" "materials s (m @ [0]) \<noteq> None"
  shows "map_option color (materials s' (m @ [0])) = Some (Some (light_color (status d)))"
  using assms unfolding updateMesh_def Let_def light_color_def
  by (auto split: option.splits list.splits if_splits)

lemma forEachMesh_frame:
  assumes "forEachMesh rest s = Inr s'"
  shows "serverStatus s' = serverStatus s \<and> scene s' = scene s \<and> servers_dc s' = servers_dc s \<and>
    (\<forall>q. (materials s' q = None \<longleftrightarrow> materials s q = None) \<and>
         (q \<notin> (\<lambda>m. m @ [0]) ` snd ` set rest \<longrightarrow>
            map_option color (materials s' q) = map_option color (materials s q)))"
  using assms
proof (induction rest arbitrary: s)
  case Nil
  then show ?case by simp
next
  case (Cons e rest)
  obtain k m where e: "e = (k, m)" by (cases e)
  from Cons.prems obtain s1 where 1: "updateMesh k m s = Inr s1" and 2: "forEachMesh rest s1 = Inr s'"
    by (auto simp: e split: sum.splits)
  from updateMesh_frame [OF 1] Cons.IH [OF 2] show ?case
    by (auto simp: e)
qed

lemma forEachMesh_light:
  assumes "forEachMesh reg s = Inr s'" "(k, m) \<in> set reg" "distinct (map snd reg)"
    and "fst (getServerData (serverStatus s) k) = Some d"
    and "lookup (scene s) m = Some n" "children n \<noteq> []" "materials s (m @ [0]) \<noteq> None"
  shows "map_option color (materials s' (m @ [0])) = Some (Some (light_color (status d)))"
  using assms
proof (induction reg arbitrary: s)
  case Nil
  then show ?case by simp
next
  case (Cons e rest)
  obtain k0 m0 where e: "e = (k0, m0)" by (cases e)
  from Cons.prems(1) obtain s1 where 1: "updateMesh k0 m0 s = Inr s1"
    and 2: "forEachMesh rest s1 = Inr s'"
    by (auto simp: e split: sum.splits)
  note f1 = updateMesh_frame [OF 1]
  show ?case
  proof (cases "(k, m) = (k0, m0)")
    case True
    with Cons.prems(3) have "m \<notin> snd ` set rest" by (simp add: e)
    then have "m @ [0] \<notin> (\<lambda>m. m @ [0]) ` snd ` set rest" by auto
    with forEachMesh_frame [OF 2]
    have "map_option color (materials s' (m @ [0])) = map_option color (materials s1 (m @ [0]))"
      by blast
    also from True 1 Cons.prems have "\<dots> = Some (Some (light_color (status d)))"
      by (intro updateMesh_light [where k = k and s = s and n = n]) simp_all
    finally show ?thesis .
  next
    case False
    with Cons.prems(2) have in_rest: "(k, m) \<in> set rest" by (auto simp: e)
    from Cons.prems(3) have d: "distinct (map snd rest)" by simp
    from f1 Cons.prems have "fst (getServerData (serverStatus s1) k) = Some d"
      "lookup (scene s1) m = Some n" "materials s1 (m @ [0]) \<noteq> None"
      by simp_all
    with 2 in_rest d Cons.prems(6) show ?thesis
      by (intro Cons.IH [where s = s1]) simp_all
  qed
qed

lemma update_light_lemma:
  assumes "fst (update rnd i s) = Inr s'"
    and "(k, m) \<in> set (servers_dc s)" "distinct (map snd (servers_dc s))"
    and "fst (getServerData (serverStatus s') k) = Some d"
    and "lookup (scene s) m = Some n" "children n \<noteq> []" "materials s (m @ [0]) \<noteq> None"
  shows "map_option color (materials s' (m @ [0])) = Some (Some (light_color (status d)))"
proof -
  let ?st = "fst (updateServerStatus rnd i (serverStatus s))"
  from assms(1) have run: "forEachMesh (servers_dc s) (s\<lparr> serverStatus := ?st \<rparr>) = Inr s'"
    by (simp add: update_def case_prod_beta)
  from forEachMesh_frame [OF run] have "serverStatus s' = ?st" by simp
  with assms(4) have d: "fst (getServerData (serverStatus (s\<lparr> serverStatus := ?st \<rparr>)) k) = Some d"
    by simp
  from run assms(2,3) d assms(5-7) show ?thesis
    by (intro forEachMesh_light [where s = "s\<lparr> serverStatus := ?st \<rparr>" and reg = "servers_dc s" and k = k and n = n])
      simp_all
qed

lemma baseScene_eq:
  "baseScene = Obj Group emptyUserData None
     ([Obj Mesh emptyUserData (Some (colorMaterial 4473924 0.8)) [],
       Obj Other emptyUserData (Some (colorMaterial 16777215 1)) [],
       Obj Mesh emptyUserData (Some (colorMaterial 2236962 1)) []]
      @ pipeRow @ pipeRow @ pipeRow @ pipeRow @ pipeRow @ pipeRow)"
  by (simp add: baseScene_def createRackConnections_def createMainInfrastructure_def createFloor_def
      createPipe_def add_def infrastructureTypes_def upt_rec pipeRow_def)

lemma baseScene_length: "length (children baseScene) = 27"
  by (simp add: baseScene_eq infrastructureTypes_def pipeRow_def)

lemma fold_map_set_fresh:
  "distinct (map fst es) \<Longrightarrow> fst ` set es \<inter> fst ` set m = {} \<Longrightarrow>
   fold (\<lambda>(k, p) m. map_set m k (f p)) es m = m @ map (\<lambda>(k, p). (k, f p)) es"
proof (induction es arbitrary: m)
  case Nil
  then show ?case by simp
next
  case (Cons e es)
  obtain k p where e: "e = (k, p)" by (cases e)
  from Cons.prems have fresh: "k \<notin> fst ` set m" by (auto simp: e)
  have "fold (\<lambda>(k, p) m. map_set m k (f p)) es (m @ [(k, f p)]) =
      (m @ [(k, f p)]) @ map (\<lambda>(k, p). (k, f p)) es"
    using Cons.prems by (intro Cons.IH) (auto simp: e)
  then show ?case by (simp add: e map_set_fresh [OF fresh])
qed

lemma createRacksStep_eq:
  assumes r: "r < 9" and keys: "fst ` set (servers_dc s) \<subseteq> (\<lambda>(R, S). serverId R S) ` ({0..<r} \<times> {0..<5})"
    and rk: "fst ` set (racks s) \<subseteq> {0..<r}"
    and len: "r \<le> length (children (scene s))"
  shows "createRacksStep r s =
    s\<lparr> servers_dc := servers_dc s @ registeredOf (length (children (scene s)) - r) r,
       racks := racks s @ [(r, [length (children (scene s))])],
       scene := Obj (kind (scene s)) (userData (scene s)) (material (scene s))
                  (children (scene s) @ [fst (createRack r)]) \<rparr>"
proof -
  let ?L = "length (children (scene s))"
  let ?es = "map (\<lambda>i. (serverId r i, [Suc i, 0])) [0..<5]"
  have d: "distinct (map fst ?es)"
  proof -
    have "inj_on (serverId r) {0..<5}"
      using r by (auto intro!: inj_onI dest!: serverId_inj [rotated -1])
    then show ?thesis by (simp add: distinct_map comp_def)
  qed
  have dis: "fst ` set ?es \<inter> fst ` set (servers_dc s) = {}"
  proof (rule ccontr)
    assume "fst ` set ?es \<inter> fst ` set (servers_dc s) \<noteq> {}"
    then obtain x where x1: "x \<in> fst ` set ?es" and x2: "x \<in> fst ` set (servers_dc s)" by blast
    from x1 obtain i where "i < 5" "x = serverId r i" by auto
    with x2 have i: "i < 5" "serverId r i \<in> fst ` set (servers_dc s)" by simp_all
    with keys obtain R S where "R < r" "S < 5" "serverId r i = serverId R S" by auto
    with serverId_inj [of r i R S] r i show False by simp
  qed
  have "fold (\<lambda>(k, p) m. map_set m k (?L # p)) ?es (servers_dc s) =
      servers_dc s @ map (\<lambda>(k, p). (k, ?L # p)) ?es"
    using d dis by (rule fold_map_set_fresh)
  also have "map (\<lambda>(k, p). (k, ?L # p)) ?es = registeredOf (?L - r) r"
    using len by (simp add: registeredOf_def)
  finally have 1: "fold (\<lambda>(k, p) m. map_set m k (?L # p)) ?es (servers_dc s) =
      servers_dc s @ registeredOf (?L - r) r" .
  have "r \<notin> fst ` set (racks s)" using rk by auto
  then have 2: "map_set (racks s) r [?L] = racks s @ [(r, [?L])]" by (rule map_set_fresh)
  show ?thesis
    by (simp add: createRacksStep_def createRack_def 1 [unfolded createRack_def] 2 add_def)
qed

lemma createRacks_upto:
  assumes "j \<le> 9" "servers_dc s = []" "racks s = []"
  shows "fold createRacksStep [0..<j] s =
    s\<lparr> servers_dc := concat (map (registeredOf (length (children (scene s)))) [0..<j]),
       racks := map (\<lambda>r. (r, [length (children (scene s)) + r])) [0..<j],
       scene := Obj (kind (scene s)) (userData (scene s)) (material (scene s))
                  (children (scene s) @ map (\<lambda>r. fst (createRack r)) [0..<j]) \<rparr>"
  using assms(1)
proof (induction j)
  case 0
  show ?case using assms(2,3) by simp
next
  case (Suc j)
  let ?L = "length (children (scene s))"
  let ?s = "s\<lparr> servers_dc := concat (map (registeredOf ?L) [0..<j]),
       racks := map (\<lambda>r. (r, [?L + r])) [0..<j],
       scene := Obj (kind (scene s)) (userData (scene s)) (material (scene s))
                  (children (scene s) @ map (\<lambda>r. fst (createRack r)) [0..<j]) \<rparr>"
  from Suc have ih: "fold createRacksStep [0..<j] s = ?s" by simp
  have keys: "fst ` set (servers_dc ?s) \<subseteq> (\<lambda>(R, S). serverId R S) ` ({0..<j} \<times> {0..<5})"
    by (force simp: registeredOf_def)
  have rk: "fst ` set (racks ?s) \<subseteq> {0..<j}" by auto
  have len: "j \<le> length (children (scene ?s))" by simp
  from Suc.prems have j: "j < 9" by simp
  have "fold createRacksStep [0..<Suc j] s = createRacksStep j ?s"
    by (simp add: ih)
  also have "\<dots> = ?s\<lparr> servers_dc := servers_dc ?s @ registeredOf (length (children (scene ?s)) - j) j,
       racks := racks ?s @ [(j, [length (children (scene ?s))])],
       scene := Obj (kind (scene ?s)) (userData (scene ?s)) (material (scene ?s))
                  (children (scene ?s) @ [fst (createRack j)]) \<rparr>"
    using j keys rk len by (rule createRacksStep_eq)
  finally show ?case by simp
qed

lemma demo_scene:
  "scene demo = Obj Group emptyUserData None (children baseScene @ map (\<lambda>r. fst (createRack r)) [0..<9])"
  and demo_servers: "servers_dc demo = concat (map (registeredOf 27) [0..<9])"
  and demo_racks: "racks demo = map (\<lambda>r. (r, [27 + r])) [0..<9]"
  and demo_materials: "materials demo = materialAt (scene demo)"
  and demo_status: "serverStatus demo = fst (initializeServers (constant_rng (19 / 20)) 0)"
  and demo_selected: "selectedServer demo = None"
  and demo_hoveredRack: "hoveredRack demo = None"
  and demo_hoveredServer: "hoveredServer demo = None"
  and demo_info: "info demo = Some PageMarkup"
proof -
  let ?s0 = "\<lparr> serverStatus = fst (initializeServers (constant_rng (19 / 20)) 0), servers_dc = [], racks = [],
       scene = baseScene, materials = (\<lambda>p. None),
       selectedServer = None, hoveredRack = None, hoveredServer = None,
       info = Some PageMarkup \<rparr>"
  have b: "kind baseScene = Group" "userData baseScene = emptyUserData" "material baseScene = None"
    by (simp_all add: baseScene_eq)
  have d: "demo = (createRacks ?s0)\<lparr> materials := materialAt (scene (createRacks ?s0)) \<rparr>"
    by (simp add: demo_def newDataCenter_def case_prod_beta Let_def baseScene_def)
  have c: "createRacks ?s0 = ?s0\<lparr> servers_dc := concat (map (registeredOf 27) [0..<9]),
       racks := map (\<lambda>r. (r, [27 + r])) [0..<9],
       scene := Obj Group emptyUserData None (children baseScene @ map (\<lambda>r. fst (createRack r)) [0..<9]) \<rparr>"
    unfolding createRacks_def
    by (subst createRacks_upto) (simp_all add: baseScene_length b)
  show "scene demo = Obj Group emptyUserData None (children baseScene @ map (\<lambda>r. fst (createRack r)) [0..<9])"
    "servers_dc demo = concat (map (registeredOf 27) [0..<9])"
    "racks demo = map (\<lambda>r. (r, [27 + r])) [0..<9]"
    "materials demo = materialAt (scene demo)"
    "serverStatus demo = fst (initializeServers (constant_rng (19 / 20)) 0)"
    "selectedServer demo = None" "hoveredRack demo = None" "hoveredServer demo = None"
    "info demo = Some PageMarkup"
    unfolding d c by simp_all
qed

lemma demo_lookup_rack:
  "r < 9 \<Longrightarrow> lookup (scene demo) ((27 + r) # p) = lookup (fst (createRack r)) p"
  by (simp add: demo_scene nth_append baseScene_length)

lemma createRack_lookups:
  "lookup (fst (createRack r)) [] =
     Some (Obj Group (emptyUserData\<lparr> ud_rackIndex := Some r \<rparr>) None
        (Obj Mesh (emptyUserData\<lparr> ud_isRackCase := True \<rparr>) (Some (colorMaterial 3355443 1)) []
         # map (createServerGroup r) [0..<5]))"
  "lookup (fst (createRack r)) [0] =
     Some (Obj Mesh (emptyUserData\<lparr> ud_isRackCase := True \<rparr>) (Some (colorMaterial 3355443 1)) [])"
  "i < 5 \<Longrightarrow> lookup (fst (createRack r)) [Suc i] = Some (createServerGroup r i)"
  "i < 5 \<Longrightarrow> lookup (fst (createRack r)) [Suc i, 0] =
     Some (Obj Mesh (emptyUserData\<lparr> ud_id := Some (serverId r i) \<rparr>) (Some createHeatmapMaterial)
          [Obj Mesh emptyUserData (Some (colorMaterial 65280 1)) []])"
  "i < 5 \<Longrightarrow> lookup (fst (createRack r)) [Suc i, 0, 0] =
     Some (Obj Mesh emptyUserData (Some (colorMaterial 65280 1)) [])"
  by (simp_all add: createRack_def createServerGroup_def)

lemma initial_lookup:
  "R \<le> 8 \<Longrightarrow> S \<le> 4 \<Longrightarrow>
   map_of (servers (fst (initializeServers rnd n))) (serverId R S) =
     Some (initialRecord rnd R S (n + 15 * R + 3 * S))"
  using keys_distinct initial_member by (rule map_of_is_SomeI)

lemma demo_data:
  "r < 9 \<Longrightarrow> i < 5 \<Longrightarrow>
   fst (getServerData (serverStatus demo) (serverId r i)) =
     Some \<lparr> server_id = serverId r i, temperature = 44, cpuUsage = 77, memoryUsage = 155 / 2,
            status = Normal \<rparr>"
  by (simp add: getServerData_def demo_status initial_lookup initialRecord_def constant_rng_def
      fl_exact_values)

lemma demo_obj:
  assumes "r < 9"
  shows "lookup (scene demo) [27 + r] =
     Some (Obj Group (emptyUserData\<lparr> ud_rackIndex := Some r \<rparr>) None
        (Obj Mesh (emptyUserData\<lparr> ud_isRackCase := True \<rparr>) (Some (colorMaterial 3355443 1)) []
         # map (createServerGroup r) [0..<5]))"
    and "lookup (scene demo) [27 + r, 0] =
     Some (Obj Mesh (emptyUserData\<lparr> ud_isRackCase := True \<rparr>) (Some (colorMaterial 3355443 1)) [])"
    and "i < 5 \<Longrightarrow> lookup (scene demo) [27 + r, Suc i] = Some (createServerGroup r i)"
    and "i < 5 \<Longrightarrow> lookup (scene demo) [27 + r, Suc i, 0] =
     Some (Obj Mesh (emptyUserData\<lparr> ud_id := Some (serverId r i) \<rparr>) (Some createHeatmapMaterial)
          [Obj Mesh emptyUserData (Some (colorMaterial 65280 1)) []])"
    and "i < 5 \<Longrightarrow> lookup (scene demo) [27 + r, Suc i, 0, 0] =
     Some (Obj Mesh emptyUserData (Some (colorMaterial 65280 1)) [])"
  using assms by (simp_all only: demo_lookup_rack createRack_lookups)

lemma serverId_truthy: "truthy (Some (serverId r i))"
  by (simp add: truthy_def serverId_def)

lemma demo_resolve_mesh:
  assumes "r < 9" "i < 5"
  shows "resolveTarget (scene demo) (servers_dc demo) [27 + r, Suc i, 0] = Inr [27 + r, Suc i, 0]"
  using assms
  by (simp add: resolveTarget_def parent_def walkParents.simps demo_obj createServerGroup_def
      emptyUserData_def truthy_def del: lookup.simps)

lemma demo_resolve_light:
  assumes "r < 9" "i < 5"
  shows "resolveTarget (scene demo) (servers_dc demo) [27 + r, Suc i, 0, 0] = Inr [27 + r, Suc i, 0]"
  using assms
  by (simp add: resolveTarget_def parent_def walkParents.simps demo_obj serverId_truthy del: lookup.simps)

lemma demo_resolve_case:
  assumes "r < 9"
  shows "resolveTarget (scene demo) (servers_dc demo) [27 + r, 0] = Inr [27 + r, 0]"
  using assms
  by (simp add: resolveTarget_def parent_def walkParents.simps demo_obj emptyUserData_def del: lookup.simps)

lemma demo_material_mesh:
  "r < 9 \<Longrightarrow> i < 5 \<Longrightarrow> materials demo [27 + r, Suc i, 0] = Some createHeatmapMaterial"
  and demo_material_light:
  "r < 9 \<Longrightarrow> i < 5 \<Longrightarrow> materials demo [27 + r, Suc i, 0, 0] = Some (colorMaterial 65280 1)"
  and demo_material_case:
  "r < 9 \<Longrightarrow> materials demo [27 + r, 0] = Some (colorMaterial 3355443 1)"
  by (simp_all add: demo_materials materialAt_def demo_obj del: lookup.simps)

lemma demo_single: "singleRackCase (scene demo)"
  by (simp add: demo_scene baseScene_eq pipeRow_def infrastructureTypes_def createRack_def
      createServerGroup_def emptyUserData_def upt_rec)

lemma demo_clearOk: "clearOk demo"
  by (simp add: clearOk_def hoveredCase_def demo_hoveredRack demo_hoveredServer)

lemma demoInv_demo: "demoInv demo"
  by (simp add: demoInv_def demo_clearOk)

lemma clearOk_cong:
  assumes "scene s' = scene s" "hoveredRack s' = hoveredRack s"
    "\<forall>p. materials s' p = None \<longleftrightarrow> materials s p = None"
    "clearOk s"
    "case hoveredServer s' of None \<Rightarrow> True | Some h \<Rightarrow> Some h = selectedServer s' \<or> materials s' h \<noteq> None"
  shows "clearOk s'"
proof -
  from assms(1,2) have "hoveredCase s' = hoveredCase s" by (intro hoveredCase_cong) simp_all
  with assms show ?thesis by (auto simp: clearOk_def split: option.splits)
qed

lemma inv_hover_resolved_server:
  assumes inv: "demoInv s" and r: "r < 9" "i < 5"
    and res: "resolveTarget (scene demo) (servers_dc demo) hit = Inr [27 + r, Suc i, 0]"
    and st: "serverStatus s = serverStatus demo"
  shows "\<exists>s'. handleMouseMove s (hit # farther) = Inr s' \<and> demoInv s' \<and>
      hoveredServer s' = Some [27 + r, Suc i, 0] \<and> hoveredRack s' = hoveredRack s \<and>
      selectedServer s' = selectedServer s \<and>
      (selectedServer s \<noteq> Some [27 + r, Suc i, 0] \<longrightarrow> wireframeAt s' [27 + r, Suc i, 0] = Some True) \<and>
      info s' = map_option (\<lambda>old. ServerDetail \<lparr> server_id = serverId r i, temperature = 44, cpuUsage = 77,
          memoryUsage = 155 / 2, status = Normal \<rparr>) (info s) \<and>
      serverStatus s' = serverStatus s"
proof -
  let ?h = "[27 + r, Suc i, 0]"
  let ?n = "Obj Mesh (emptyUserData\<lparr> ud_id := Some (serverId r i) \<rparr>) (Some createHeatmapMaterial)
          [Obj Mesh emptyUserData (Some (colorMaterial 65280 1)) []]"
  let ?c = "restyle (clearStyle s) s"
  let ?d = "\<lparr> server_id = serverId r i, temperature = 44, cpuUsage = 77,
          memoryUsage = 155 / 2, status = Normal \<rparr>"
  let ?s' = "showServerInfo ?d
     (restyle (\<lambda>q m. if q = ?h \<and> selectedServer s \<noteq> Some ?h then m\<lparr> wireframe := True \<rparr> else m)
        (?c\<lparr> hoveredServer := Some ?h \<rparr>))"
  from inv have sc: "scene s = scene demo" "servers_dc s = servers_dc demo"
    and dom: "\<forall>p. materials s p = None \<longleftrightarrow> materials demo p = None" and ok: "clearOk s"
    by (simp_all add: demoInv_def)
  from dom r have mh: "materials s ?h \<noteq> None" by (simp add: demo_material_mesh)
  then obtain mm where mm: "materials s ?h = Some mm" by auto
  have n: "lookup (scene ?c) ?h = Some ?n"
    using r by (simp add: sc demo_obj del: lookup.simps)
  have u: "\<not> ud_isRackCase (userData ?n)" "truthy (ud_id (userData ?n))"
    by (simp_all add: emptyUserData_def serverId_truthy)
  have "hoverTarget ?c ?h = Inr ?s'"
    unfolding hoverTarget_server [OF n u] using mh r by (simp add: st demo_data)
  with ok res have run: "handleMouseMove s (hit # farther) = Inr ?s'"
    by (simp add: handleMouseMove_def clearHover_eq applyHover_def sc)
  have "clearOk ?s'"
    by (rule clearOk_cong [OF _ _ _ ok]) (simp_all add: mm)
  with sc dom have "demoInv ?s'" by (simp add: demoInv_def)
  moreover have "selectedServer s \<noteq> Some ?h \<longrightarrow> wireframeAt ?s' ?h = Some True"
    by (simp add: wireframeAt_def mm)
  ultimately show ?thesis using run
    by (intro exI [of _ ?s']) (simp add: option.map_comp comp_def)
qed

lemma inv_hover_none:
  assumes inv: "demoInv s"
  shows "\<exists>s'. handleMouseMove s [] = Inr s' \<and> demoInv s' \<and>
      hoveredServer s' = None \<and> hoveredRack s' = None \<and> selectedServer s' = selectedServer s \<and>
      serverStatus s' = serverStatus s"
proof -
  let ?c = "restyle (clearStyle s) s"
  let ?s' = "showDefaultInfo (?c\<lparr> hoveredRack := None, hoveredServer := None \<rparr>)"
  from inv have sc: "scene s = scene demo" "servers_dc s = servers_dc demo"
    and dom: "\<forall>p. materials s p = None \<longleftrightarrow> materials demo p = None" and ok: "clearOk s"
    by (simp_all add: demoInv_def)
  from ok have run: "handleMouseMove s [] = Inr ?s'"
    by (simp add: handleMouseMove_def clearHover_eq applyHover_def)
  have "clearOk ?s'" by (simp add: clearOk_def hoveredCase_def)
  with sc dom have "demoInv ?s'" by (simp add: demoInv_def)
  with run show ?thesis by (intro exI [of _ ?s']) simp
qed

lemma inv_hover_case:
  assumes inv: "demoInv s" and r: "r < 9"
  shows "\<exists>s'. handleMouseMove s ([27 + r, 0] # farther) = Inr s' \<and> demoInv s' \<and>
      hoveredRack s' = Some [27 + r] \<and> hoveredServer s' = hoveredServer s \<and>
      selectedServer s' = selectedServer s \<and>
      map_option opacity (materials s' [27 + r, 0]) = Some 0.7"
proof -
  let ?t = "[27 + r, 0]"
  let ?n = "Obj Mesh (emptyUserData\<lparr> ud_isRackCase := True \<rparr>) (Some (colorMaterial 3355443 1)) []"
  let ?c = "restyle (clearStyle s) s"
  let ?s' = "showRackInfo (Some r)
     (restyle (\<lambda>q m. if q = ?t then m\<lparr> opacity := 0.7 \<rparr> else m) (?c\<lparr> hoveredRack := Some [27 + r] \<rparr>))"
  from inv have sc: "scene s = scene demo" "servers_dc s = servers_dc demo"
    and dom: "\<forall>p. materials s p = None \<longleftrightarrow> materials demo p = None" and ok: "clearOk s"
    by (simp_all add: demoInv_def)
  from dom r have "materials s ?t \<noteq> None" by (simp add: demo_material_case)
  then obtain mm where mm: "materials s ?t = Some mm" by auto
  have n: "lookup (scene ?c) ?t = Some ?n"
    using r by (simp add: sc demo_obj del: lookup.simps)
  have u: "ud_isRackCase (userData ?n)" by simp
  have p: "parent ?t = Some [27 + r]" by (simp add: parent_def)
  have "hoverTarget ?c ?t = Inr ?s'"
    unfolding hoverTarget_rack [OF n u] using r
    by (simp add: p sc demo_obj mm del: lookup.simps)
  with ok r have run: "handleMouseMove s (?t # farther) = Inr ?s'"
    by (simp add: handleMouseMove_def clearHover_eq applyHover_def sc demo_resolve_case)
  have hc: "hoveredCase ?s' = Some ?t"
    using r by (simp add: hoveredCase_def sc demo_obj del: lookup.simps)
  have "clearOk ?s'"
    using ok r by (auto simp: clearOk_def hc sc demo_obj mm simp del: lookup.simps split: option.splits)
  with sc dom have "demoInv ?s'" by (simp add: demoInv_def)
  with run show ?thesis by (intro exI [of _ ?s']) (simp add: mm)
qed

lemma handleClick_server:
  assumes "lookup (scene s) c = Some n" "truthy (ud_id (userData n))"
    "fst (getServerData (serverStatus s) (the (ud_id (userData n)))) = Some d"
    "materials s c \<noteq> None" "\<forall>old. selectedServer s = Some old \<longrightarrow> materials s old \<noteq> None"
  shows "handleClick s (c # farther) =
            Inr (showServerInfo d
              (restyle (\<lambda>q m. if q = c then m\<lparr> wireframe := True \<rparr>
                         else if selectedServer s = Some q then m\<lparr> wireframe := False \<rparr> else m)
                 (s\<lparr> selectedServer := Some c \<rparr>)))"
proof -
  let ?r = "restyle (\<lambda>q m. if q = c then m\<lparr> wireframe := True \<rparr>
                         else if selectedServer s = Some q then m\<lparr> wireframe := False \<rparr> else m)
                 (s\<lparr> selectedServer := Some c \<rparr>)"
  show ?thesis
  proof (cases "selectedServer s")
    case None
    have "setWireframe c True (s\<lparr> selectedServer := Some c \<rparr>) = Inr ?r"
      unfolding setWireframe_Inr using assms None
      by (auto intro!: restyle_eqI)
    with assms None show ?thesis by (simp add: handleClick_def)
  next
    case (Some old)
    let ?s1 = "restyle (\<lambda>q m. if q = old then m\<lparr> wireframe := False \<rparr> else m) s"
    from assms Some have 1: "setWireframe old False s = Inr ?s1"
      unfolding setWireframe_Inr by simp
    have "setWireframe c True (?s1\<lparr> selectedServer := Some c \<rparr>) = Inr ?r"
      unfolding setWireframe_Inr using assms Some
      by (auto simp: restyle_selectedServer [symmetric] restyle_restyle intro!: restyle_eqI)
    with assms Some 1 show ?thesis by (simp add: handleClick_def)
  qed
qed


lemma demo_click:
  assumes inv: "demoInv s" and r: "r < 9" "i < 5" and st: "serverStatus s = serverStatus demo"
    and sel: "\<forall>old. selectedServer s = Some old \<longrightarrow> materials demo old \<noteq> None"
  shows "\<exists>s'. handleClick s ([27 + r, Suc i, 0] # farther) = Inr s' \<and> demoInv s' \<and>
      selectedServer s' = Some [27 + r, Suc i, 0] \<and> wireframeAt s' [27 + r, Suc i, 0] = Some True \<and>
      hoveredServer s' = hoveredServer s \<and> hoveredRack s' = hoveredRack s \<and>
      serverStatus s' = serverStatus s \<and>
      info s' = map_option (\<lambda>old. ServerDetail \<lparr> server_id = serverId r i, temperature = 44, cpuUsage = 77,
          memoryUsage = 155 / 2, status = Normal \<rparr>) (info s)"
proof -
  let ?h = "[27 + r, Suc i, 0]"
  let ?n = "Obj Mesh (emptyUserData\<lparr> ud_id := Some (serverId r i) \<rparr>) (Some createHeatmapMaterial)
          [Obj Mesh emptyUserData (Some (colorMaterial 65280 1)) []]"
  let ?d = "\<lparr> server_id = serverId r i, temperature = 44, cpuUsage = 77,
          memoryUsage = 155 / 2, status = Normal \<rparr>"
  let ?s' = "showServerInfo ?d
              (restyle (\<lambda>q m. if q = ?h then m\<lparr> wireframe := True \<rparr>
                         else if selectedServer s = Some q then m\<lparr> wireframe := False \<rparr> else m)
                 (s\<lparr> selectedServer := Some ?h \<rparr>))"
  from inv have sc: "scene s = scene demo" "servers_dc s = servers_dc demo"
    and dom: "\<forall>p. materials s p = None \<longleftrightarrow> materials demo p = None" and ok: "clearOk s"
    by (simp_all add: demoInv_def)
  from dom r have mh: "materials s ?h \<noteq> None" by (simp add: demo_material_mesh)
  then obtain mm where mm: "materials s ?h = Some mm" by auto
  have n: "lookup (scene s) ?h = Some ?n"
    using r by (simp add: sc demo_obj del: lookup.simps)
  have run: "handleClick s (?h # farther) = Inr ?s'"
    using r mh sel dom
    by (intro handleClick_server [OF n]) (simp_all add: serverId_truthy st demo_data)
  have "clearOk ?s'"
    using ok mh sel dom by (intro clearOk_cong [OF _ _ _ ok]) (auto split: option.splits simp: clearOk_def)
  with sc dom have "demoInv ?s'" by (simp add: demoInv_def)
  with run show ?thesis
    by (intro exI [of _ ?s']) (simp add: wireframeAt_def mm)
qed

lemma updateMesh_ok:
  assumes "lookup (scene s) m \<noteq> None" "\<forall>lm. materials s (m @ [0]) = Some lm \<longrightarrow> color lm \<noteq> None"
  shows "\<exists>s'. updateMesh k m s = Inr s'"
proof (cases "updateMesh k m s")
  case (Inr s')
  then show ?thesis by blast
next
  case (Inl e)
  then have False
    using assms unfolding updateMesh_def Let_def
    by (simp split: option.splits list.splits if_splits)
  then show ?thesis ..
qed

lemma updateMesh_color_ok:
  assumes "updateMesh k m s = Inr s'" "\<forall>lm. materials s q = Some lm \<longrightarrow> color lm \<noteq> None"
  shows "\<forall>lm. materials s' q = Some lm \<longrightarrow> color lm \<noteq> None"
  using assms unfolding updateMesh_def Let_def
  by (auto split: option.splits list.splits if_splits)

lemma forEachMesh_ok:
  assumes "\<forall>(k, m) \<in> set reg. lookup (scene s) m \<noteq> None \<and>
      (\<forall>lm. materials s (m @ [0]) = Some lm \<longrightarrow> color lm \<noteq> None)"
  shows "\<exists>s'. forEachMesh reg s = Inr s'"
  using assms
proof (induction reg arbitrary: s)
  case Nil
  show ?case by simp
next
  case (Cons e rest)
  obtain k m where e: "e = (k, m)" by (cases e)
  from Cons.prems obtain s1 where 1: "updateMesh k m s = Inr s1"
    using updateMesh_ok [of s m k] by (auto simp: e)
  have "\<forall>(k', m') \<in> set rest. lookup (scene s1) m' \<noteq> None \<and>
      (\<forall>lm. materials s1 (m' @ [0]) = Some lm \<longrightarrow> color lm \<noteq> None)"
  proof (clarify, intro conjI)
    fix k' m' assume in_rest: "(k', m') \<in> set rest"
    with Cons.prems have a: "lookup (scene s) m' \<noteq> None"
      "\<forall>lm. materials s (m' @ [0]) = Some lm \<longrightarrow> color lm \<noteq> None"
      by auto
    from updateMesh_frame [OF 1] a(1) show "lookup (scene s1) m' \<noteq> None" by simp
    from updateMesh_color_ok [OF 1 a(2)]
    show "\<forall>lm. materials s1 (m' @ [0]) = Some lm \<longrightarrow> color lm \<noteq> None" .
  qed
  from Cons.IH [OF this] obtain s' where "forEachMesh rest s1 = Inr s'" by blast
  with 1 show ?case by (simp add: e)
qed

lemma demo_registered:
  assumes "(k, m) \<in> set (servers_dc demo)"
  shows "\<exists>r i. r < 9 \<and> i < 5 \<and> k = serverId r i \<and> m = [27 + r, Suc i, 0]"
  using assms by (auto simp: demo_servers registeredOf_def)

lemma demo_registered_first: "(''rack0-server0'', [27, 1, 0]) \<in> set (servers_dc demo)"
proof -
  have "(serverId 0 0, [27 + 0, Suc 0, 0]) \<in> set (registeredOf 27 0)"
    by (force simp: registeredOf_def)
  moreover have "serverId 0 0 = ''rack0-server0''"
    by (simp add: serverId_def string_of_digit digit_def)
  ultimately show ?thesis by (auto simp: demo_servers)
qed

lemma demo_meshes_distinct: "distinct (map snd (servers_dc demo))"
proof -
  have "map snd (servers_dc demo) = map (\<lambda>(r, i). [27 + r, Suc i, 0]) (List.product [0..<9] [0..<5])"
    by (simp add: demo_servers registeredOf_def product_concat_map map_concat comp_def)
  moreover have "inj_on (\<lambda>(r, i). [27 + r, Suc i, 0]) (set (List.product [0..<9] [0..<5]))"
    by (rule inj_onI) auto
  ultimately show ?thesis by (simp add: distinct_map distinct_product)
qed

lemma demo_update_ok:
  "\<exists>s'. fst (update rnd n demo) = Inr s'"
proof -
  let ?st = "fst (updateServerStatus rnd n (serverStatus demo))"
  have "\<forall>(k, m) \<in> set (servers_dc demo). lookup (scene (demo\<lparr> serverStatus := ?st \<rparr>)) m \<noteq> None \<and>
      (\<forall>lm. materials (demo\<lparr> serverStatus := ?st \<rparr>) (m @ [0]) = Some lm \<longrightarrow> color lm \<noteq> None)"
  proof (clarify, intro conjI)
    fix k m assume "(k, m) \<in> set (servers_dc demo)"
    then obtain r i where ri: "r < 9" "i < 5" "m = [27 + r, Suc i, 0]"
      using demo_registered by blast
    then show "lookup (scene (demo\<lparr> serverStatus := ?st \<rparr>)) m \<noteq> None"
      by (simp add: demo_obj del: lookup.simps)
    from ri show "\<forall>lm. materials (demo\<lparr> serverStatus := ?st \<rparr>) (m @ [0]) = Some lm \<longrightarrow> color lm \<noteq> None"
      by (simp add: demo_material_light colorMaterial_def)
  qed
  from forEachMesh_ok [OF this] show ?thesis
    by (simp add: update_def case_prod_beta)
qed

lemma forEachServer_keys: "map fst (fst (forEachServer rnd n xs)) = map fst xs"
  by (induction xs arbitrary: n) (auto simp: case_prod_beta)

lemma forEachServer_map_of:
  assumes "distinct (map fst xs)" "j < length xs"
  shows "map_of (fst (forEachServer rnd n xs)) (fst (xs ! j)) =
    Some (updateServer (rnd (n + 3 * j)) (rnd (n + 3 * j + 1)) (rnd (n + 3 * j + 2)) (snd (xs ! j)))"
proof (rule map_of_is_SomeI)
  show "distinct (map fst (fst (forEachServer rnd n xs)))"
    using assms(1) by (simp add: forEachServer_keys)
  from assms(2) have "fst (forEachServer rnd n xs) ! j \<in> set (fst (forEachServer rnd n xs))"
    by (simp add: forEachServer_length)
  with assms(2) show "(fst (xs ! j), updateServer (rnd (n + 3 * j)) (rnd (n + 3 * j + 1))
      (rnd (n + 3 * j + 2)) (snd (xs ! j))) \<in> set (fst (forEachServer rnd n xs))"
    by (simp add: forEachServer_nth)
qed

lemma demo_after_tick:
  "fst (getServerData (fst (updateServerStatus (constant_rng (19 / 20)) n (serverStatus demo))) ''rack0-server0'') =
     Some \<lparr> server_id = ''rack0-server0'', temperature = 449 / 10, cpuUsage = 163 / 2,
            memoryUsage = 319 / 4, status = Error \<rparr>"
proof -
  let ?xs = "servers (fst (initializeServers (constant_rng (19 / 20)) 0))"
  have 0: "?xs ! 0 = (''rack0-server0'', initialRecord (constant_rng (19 / 20)) 0 0 0)"
    by (rule initial_first)
  have "map_of (fst (forEachServer (constant_rng (19 / 20)) n ?xs)) (fst (?xs ! 0)) =
    Some (updateServer (constant_rng (19 / 20) (n + 3 * 0)) (constant_rng (19 / 20) (n + 3 * 0 + 1))
      (constant_rng (19 / 20) (n + 3 * 0 + 2)) (snd (?xs ! 0)))"
    by (rule forEachServer_map_of) (simp_all add: keys_distinct initial_length)
  then have "map_of (fst (forEachServer (constant_rng (19 / 20)) n ?xs)) ''rack0-server0'' =
    Some (updateServer (19 / 20) (19 / 20) (19 / 20) (initialRecord (constant_rng (19 / 20)) 0 0 0))"
    unfolding 0 fst_conv snd_conv by (simp add: constant_rng_def)
  also have "updateServer (19 / 20) (19 / 20) (19 / 20) (initialRecord (constant_rng (19 / 20)) 0 0 0) =
      \<lparr> server_id = ''rack0-server0'', temperature = 449 / 10, cpuUsage = 163 / 2,
        memoryUsage = 319 / 4, status = Error \<rparr>"
    by (simp add: updateServer_eq initialRecord_def constant_rng_def threshold_status_def
        serverId_def string_of_digit digit_def fl_exact_values)
  finally show ?thesis
    by (simp add: getServerData_def updateServerStatus_def case_prod_beta demo_status)
qed

lemma demo_paths:
  "lookup (scene demo) [27, 1, 0] =
     Some (Obj Mesh (emptyUserData\<lparr> ud_id := Some (serverId 0 0) \<rparr>) (Some createHeatmapMaterial)
          [Obj Mesh emptyUserData (Some (colorMaterial 65280 1)) []])"
  "lookup (scene demo) [27, 1, 0, 0] = Some (Obj Mesh emptyUserData (Some (colorMaterial 65280 1)) [])"
  "lookup (scene demo) [27, 0] =
     Some (Obj Mesh (emptyUserData\<lparr> ud_isRackCase := True \<rparr>) (Some (colorMaterial 3355443 1)) [])"
  "materials demo [27, 1, 0] = Some createHeatmapMaterial"
  "materials demo [27, 1, 0, 0] = Some (colorMaterial 65280 1)"
  "resolveTarget (scene demo) (servers_dc demo) [27, 1, 0] = Inr [27, 1, 0]"
  "resolveTarget (scene demo) (servers_dc demo) [27, 2, 0] = Inr [27, 2, 0]"
  "serverId 0 0 = ''rack0-server0''"
  using demo_obj(4) [of 0 0] demo_obj(5) [of 0 0] demo_obj(2) [of 0] demo_material_mesh [of 0 0]
    demo_material_light [of 0 0] demo_resolve_mesh [of 0 0] demo_resolve_mesh [of 0 1]
  by (simp_all add: serverId_def string_of_digit digit_def numeral_2_eq_2 del: lookup.simps)

lemmas demo_paths_Suc = demo_paths [unfolded One_nat_def]

lemma hover_repeats:
  "\<exists>s1 c. handleMouseMove demo [[27, 1, 0]] = Inr s1 \<and> wireframeAt s1 [27, 1, 0] = Some True \<and>
     clearHover s1 = Inr c \<and> wireframeAt c [27, 1, 0] = Some False \<and>
     applyHover c [[27, 1, 0]] = Inr s1 \<and> handleMouseMove s1 [[27, 1, 0]] = Inr s1"
proof -
  from inv_hover_resolved_server [OF demoInv_demo, of 0 0 "[27, 1, 0]" "[]"]
  obtain s1 where run: "handleMouseMove demo [[27, 1, 0]] = Inr s1" and inv: "demoInv s1"
    and h: "hoveredServer s1 = Some [27, 1, 0]" and sel: "selectedServer s1 = None"
    and w: "wireframeAt s1 [27, 1, 0] = Some True"
    by (auto simp: demo_paths_Suc demo_selected)
  from inv have ok: "clearOk s1" by (simp add: demoInv_def)
  let ?c = "restyle (clearStyle s1) s1"
  from ok have c: "clearHover s1 = Inr ?c" by (simp add: clearHover_eq)
  from w obtain z where z: "materials s1 [27, 1, 0] = Some z" by (auto simp: wireframeAt_def)
  have "wireframeAt ?c [27, 1, 0] = Some False"
    using z by (simp add: wireframeAt_def clearStyle_def h sel)
  moreover from handleMouseMove_idem [OF run demo_single] have again: "handleMouseMove s1 [[27, 1, 0]] = Inr s1" .
  moreover from again c have "applyHover ?c [[27, 1, 0]] = Inr s1"
    by (simp add: handleMouseMove_def)
  ultimately show ?thesis using run w c by blast
qed

lemma traverse_children_mem:
  "i < length cs \<Longrightarrow> q \<in> set (traverse (cs ! i)) \<Longrightarrow> (k + i) # q \<in> set (traverse_children k cs)"
proof (induction cs arbitrary: k i)
  case Nil
  then show ?case by simp
next
  case (Cons c cs)
  show ?case
  proof (cases i)
    case 0
    with Cons.prems show ?thesis by simp
  next
    case (Suc j)
    with Cons.prems have "(Suc k + j) # q \<in> set (traverse_children (Suc k) cs)"
      by (intro Cons.IH) simp_all
    with Suc show ?thesis by simp
  qed
qed

lemma traverse_complete: "lookup t p = Some n \<Longrightarrow> p \<in> set (traverse t)"
proof (induction p arbitrary: t)
  case Nil
  obtain k u m cs where "t = Obj k u m cs" by (cases t)
  then show ?case by simp
next
  case (Cons i p)
  obtain k u m cs where t: "t = Obj k u m cs" by (cases t)
  from Cons.prems have i: "i < length cs" and l: "lookup (cs ! i) p = Some n"
    by (auto simp: t split: if_splits)
  from Cons.IH [OF l] have "p \<in> set (traverse (cs ! i))" .
  with i have "(0 + i) # p \<in> set (traverse_children 0 cs)" by (rule traverse_children_mem)
  then show ?case by (simp add: t)
qed

lemma interactive_mesh:
  assumes "lookup t m = Some n" "kind n = Mesh" "truthy (ud_id (userData n)) \<or> ud_isRackCase (userData n)"
  shows "m \<in> set (interactiveObjects t)"
  using assms traverse_complete [OF assms(1)] by (simp add: interactiveObjects_def)

text \<open>A pointer move reads its intersections through the resolved target only.\<close>

lemma hoverTarget_frame:
  assumes "hoverTarget s t = Inr s'"
  shows "scene s' = scene s \<and> servers_dc s' = servers_dc s"
  using assms unfolding hoverTarget_def
  by (auto split: option.splits sum.splits if_splits
      simp: setOpacity_Inr setWireframe_Inr restyle_hoveredRack restyle_hoveredServer)

lemma handleMouseMove_frame:
  assumes "handleMouseMove s intersects = Inr s'"
  shows "scene s' = scene s \<and> servers_dc s' = servers_dc s"
proof -
  from assms have a: "applyHover (restyle (clearStyle s) s) intersects = Inr s'"
    by (auto simp: handleMouseMove_def clearHover_eq split: if_splits)
  show ?thesis
  proof (cases intersects)
    case Nil
    with a show ?thesis by (auto simp: applyHover_def)
  next
    case (Cons io far)
    with a obtain t where "hoverTarget (restyle (clearStyle s) s) t = Inr s'"
      by (auto simp: applyHover_def split: sum.splits)
    from hoverTarget_frame [OF this] show ?thesis by simp
  qed
qed

lemma handleMouseMove_target:
  assumes "pickTarget s again = pickTarget s intersects"
  shows "handleMouseMove s again = handleMouseMove s intersects"
  using assms
  by (auto simp: handleMouseMove_def clearHover_eq applyHover_def pickTarget_def split: list.splits)

lemma handleMouseMove_idem_target:
  assumes run: "handleMouseMove s intersects = Inr s1" and one: "singleRackCase (scene s)"
    and same: "pickTarget s1 again = pickTarget s intersects"
  shows "handleMouseMove s1 again = Inr s1"
proof -
  from handleMouseMove_frame [OF run] have "pickTarget s1 intersects = pickTarget s intersects"
    by (simp add: pickTarget_def split: list.splits)
  with same have "pickTarget s1 again = pickTarget s1 intersects" by simp
  then have "handleMouseMove s1 again = handleMouseMove s1 intersects"
    by (rule handleMouseMove_target)
  with handleMouseMove_idem [OF run one] show ?thesis by simp
qed




















section \<open>The claims about picking, hovering and selecting\<close>

text \<open>
  C5: when the nearest intersection is an untagged part nested inside a server mesh
  (the indicator light, for one), with nothing but plain objects between the two, the
  server mesh is one of the objects handed to the ray caster, so the part is picked
  as its descendant, and the loop over the parents stops at that server mesh. The target is the server, never
  nothing and never the rack around it: the server becomes the hovered server and
  shows its wireframe unless it is the selected one, the info panel shows its record,
  and the hovered rack stays as it was. The hypotheses on \<open>clearHover\<close> and on the
  material say that the handler does not throw on the way.
\<close>

theorem pick_resolves_server_subpart:
  assumes "lookup (scene s) m = Some n" "kind n = Mesh" "truthy (ud_id (userData n))"
      "\<not> ud_isRackCase (userData n)"
    and "q \<noteq> []" "lookup (scene s) (m @ q) = Some part"
      "\<not> truthy (ud_id (userData part))" "\<not> ud_isRackCase (userData part)"
    and "\<forall>k. 0 < k \<and> k < length q \<longrightarrow>
        (\<exists>a. lookup (scene s) (m @ take k q) = Some a \<and> plain (servers_dc s) a)"
    and "clearHover s = Inr c" "materials s m \<noteq> None"
  shows "m \<in> set (interactiveObjects (scene s)) \<and>
    resolveTarget (scene s) (servers_dc s) (m @ q) = Inr m \<and>
    (\<exists>s'. handleMouseMove s ((m @ q) # farther) = Inr s' \<and>
       hoveredServer s' = Some m \<and> hoveredRack s' = hoveredRack s \<and>
       (selectedServer s \<noteq> Some m \<longrightarrow> wireframeAt s' m = Some True) \<and>
       (\<forall>d. fst (getServerData (serverStatus s) (the (ud_id (userData n)))) = Some d \<longrightarrow>
          info s' = map_option (\<lambda>old. ServerDetail d) (info s)))"
proof -
  from assms(10) have "clearOk s" by (simp add: clearHover_eq split: if_splits)
  from resolve_nested_server [OF assms(1-5) assms(9) this assms(11)]
    interactive_mesh [OF assms(1,2)] assms(3)
  show ?thesis
    by (simp add: wireframeAt_def)
qed

theorem pick_resolves_server_subpart_witness:
  "[27, 1, 0] \<in> set (interactiveObjects (scene demo)) \<and>
   resolveTarget (scene demo) (servers_dc demo) [27, 1, 0, 0] = Inr [27, 1, 0] \<and>
   (\<exists>s'. handleMouseMove demo [[27, 1, 0, 0]] = Inr s' \<and>
       hoveredServer s' = Some [27, 1, 0] \<and> hoveredRack s' = None \<and>
       wireframeAt s' [27, 1, 0] = Some True \<and>
       info s' = Some (ServerDetail \<lparr> server_id = ''rack0-server0'', temperature = 44, cpuUsage = 77,
          memoryUsage = 155 / 2, status = Normal \<rparr>))"
proof -
  let ?n = "Obj Mesh (emptyUserData\<lparr> ud_id := Some (serverId 0 0) \<rparr>) (Some createHeatmapMaterial)
          [Obj Mesh emptyUserData (Some (colorMaterial 65280 1)) []]"
  let ?part = "Obj Mesh emptyUserData (Some (colorMaterial 65280 1)) []"
  have c: "clearHover demo = Inr (restyle (clearStyle demo) demo)"
    by (simp add: clearHover_eq demo_clearOk)
  have mid: "\<forall>k. 0 < k \<and> k < length [0::nat] \<longrightarrow>
        (\<exists>a. lookup (scene demo) ([27, 1, 0] @ take k [0]) = Some a \<and> plain (servers_dc demo) a)"
    by simp
  have d: "fst (getServerData (serverStatus demo) (serverId 0 0)) =
      Some \<lparr> server_id = ''rack0-server0'', temperature = 44, cpuUsage = 77,
          memoryUsage = 155 / 2, status = Normal \<rparr>"
    using demo_data [of 0 0] by (simp add: demo_paths_Suc)
  have "[27, 1, 0] \<in> set (interactiveObjects (scene demo)) \<and>
    resolveTarget (scene demo) (servers_dc demo) ([27, 1, 0] @ [0]) = Inr [27, 1, 0] \<and>
    (\<exists>s'. handleMouseMove demo (([27, 1, 0] @ [0]) # []) = Inr s' \<and>
       hoveredServer s' = Some [27, 1, 0] \<and> hoveredRack s' = hoveredRack demo \<and>
       (selectedServer demo \<noteq> Some [27, 1, 0] \<longrightarrow> wireframeAt s' [27, 1, 0] = Some True) \<and>
       (\<forall>d. fst (getServerData (serverStatus demo) (the (ud_id (userData ?n)))) = Some d \<longrightarrow>
          info s' = map_option (\<lambda>old. ServerDetail d) (info demo)))"
    by (rule pick_resolves_server_subpart [where n = ?n and part = ?part and c = "restyle (clearStyle demo) demo"])
      (simp_all add: demo_paths_Suc serverId_truthy emptyUserData_def truthy_def c mid del: lookup.simps)
  then show ?thesis
    by (auto simp: demo_hoveredRack demo_selected demo_info d)
qed

text \<open>
  C6, as the specification states it: of two consecutive pointer moves with the same
  target, only the first fires an enter effect; the repeated event triggers no enter
  and no leave transition.

  The handler does not compare the target with the hovered one. Every event first
  undoes the hover emphasis and then applies it again: on the data center as built,
  a second move over the first server of the first rack switches its wireframe off
  in the clear pass and on again in the rest of the handler.
\<close>

theorem hover_repeats_effects:
  "\<not> isl (handleMouseMove demo [[27, 1, 0]]) \<and>
   wireframeAt (projr (handleMouseMove demo [[27, 1, 0]])) [27, 1, 0] = Some True \<and>
   \<not> isl (clearHover (projr (handleMouseMove demo [[27, 1, 0]]))) \<and>
   wireframeAt (projr (clearHover (projr (handleMouseMove demo [[27, 1, 0]])))) [27, 1, 0] = Some False \<and>
   \<not> isl (applyHover (projr (clearHover (projr (handleMouseMove demo [[27, 1, 0]])))) [[27, 1, 0]]) \<and>
   wireframeAt (projr (applyHover (projr (clearHover (projr (handleMouseMove demo [[27, 1, 0]]))))
      [[27, 1, 0]])) [27, 1, 0] = Some True \<and>
   handleMouseMove (projr (handleMouseMove demo [[27, 1, 0]])) [[27, 1, 0]] =
     applyHover (projr (clearHover (projr (handleMouseMove demo [[27, 1, 0]])))) [[27, 1, 0]]"
proof -
  from hover_repeats obtain s1 c where
    "handleMouseMove demo [[27, 1, 0]] = Inr s1" "wireframeAt s1 [27, 1, 0] = Some True"
    "clearHover s1 = Inr c" "wireframeAt c [27, 1, 0] = Some False"
    "applyHover c [[27, 1, 0]] = Inr s1" "handleMouseMove s1 [[27, 1, 0]] = Inr s1"
    by blast
  then show ?thesis by simp
qed

text \<open>
  C6, amended: of two consecutive pointer moves with the same resolved target (the
  same object after the loop over the parents, or no intersection both times), the
  second leaves the whole state as the first move left it (the hovered rack and
  server, every material, the info panel), in a scene where no object has two
  children flagged as rack case. The leave and enter writes themselves are carried
  out again at every event.
\<close>

theorem hover_idempotent_state:
  assumes "handleMouseMove s intersects = Inr s1" and "singleRackCase (scene s)"
    and "pickTarget s1 again = pickTarget s intersects"
  shows "handleMouseMove s1 again = Inr s1"
  using assms by (rule handleMouseMove_idem_target)

theorem hover_idempotent_state_witness:
  "singleRackCase (scene demo) \<and>
   (\<exists>s1. handleMouseMove demo [[27, 1, 0, 0]] = Inr s1 \<and> hoveredServer s1 = Some [27, 1, 0] \<and>
      wireframeAt s1 [27, 1, 0] = Some True \<and>
      pickTarget demo [[27, 1, 0, 0]] = Some (Inr [27, 1, 0]) \<and>
      pickTarget s1 [[27, 1, 0], [27, 0]] = Some (Inr [27, 1, 0]) \<and>
      handleMouseMove s1 [[27, 1, 0], [27, 0]] = Inr s1)"
proof -
  from inv_hover_resolved_server [OF demoInv_demo, of 0 0 "[27, 1, 0, 0]" "[]"]
  obtain s1 where run: "handleMouseMove demo [[27, 1, 0, 0]] = Inr s1"
    and h: "hoveredServer s1 = Some [27, 1, 0]" and w: "wireframeAt s1 [27, 1, 0] = Some True"
    and inv: "demoInv s1"
    using demo_resolve_light [of 0 0] by (auto simp: demo_selected)
  have t: "pickTarget demo [[27, 1, 0, 0]] = Some (Inr [27, 1, 0])"
    using demo_resolve_light [of 0 0] by (simp add: pickTarget_def)
  from inv have "scene s1 = scene demo" "servers_dc s1 = servers_dc demo"
    by (simp_all add: demoInv_def)
  then have t1: "pickTarget s1 [[27, 1, 0], [27, 0]] = Some (Inr [27, 1, 0])"
    using demo_resolve_mesh [of 0 0] by (simp add: pickTarget_def)
  from t t1 have "pickTarget s1 [[27, 1, 0], [27, 0]] = pickTarget demo [[27, 1, 0, 0]]" by simp
  from hover_idempotent_state [OF run demo_single this]
  have "handleMouseMove s1 [[27, 1, 0], [27, 0]] = Inr s1" .
  with run h w t t1 demo_single show ?thesis by blast
qed

text \<open>
  C7: no sequence of pointer moves changes which server is selected, nor the
  wireframe flag of the selected server: the clear pass leaves the hovered server
  alone when it is the selected one, the enter effect is skipped for the selected
  server, and the writes for any other target go to other materials.
\<close>

theorem selection_undisturbed_by_hover:
  assumes "pointerMoves s events = Inr s'"
  shows "selectedServer s' = selectedServer s \<and>
    (\<forall>q. selectedServer s = Some q \<longrightarrow> wireframeAt s' q = wireframeAt s q)"
  using pointerMoves_selected [OF assms] by (simp add: wireframeAt_def)

theorem selection_undisturbed_by_hover_witness:
  "\<exists>s s'. handleClick demo [[27, 1, 0]] = Inr s \<and> selectedServer s = Some [27, 1, 0] \<and>
     wireframeAt s [27, 1, 0] = Some True \<and>
     pointerMoves s [[[27, 1, 0]], [[27, 2, 0]], []] = Inr s' \<and>
     selectedServer s' = Some [27, 1, 0] \<and> wireframeAt s' [27, 1, 0] = Some True"
proof -
  from demo_click [OF demoInv_demo, of 0 0 "[]"]
  obtain s where click: "handleClick demo [[27, 1, 0]] = Inr s" and inv: "demoInv s"
    and sel: "selectedServer s = Some [27, 1, 0]" and w: "wireframeAt s [27, 1, 0] = Some True"
    and st: "serverStatus s = serverStatus demo"
    by (auto simp: demo_selected)
  from inv_hover_resolved_server [OF inv, of 0 0 "[27, 1, 0]" "[]"]
  obtain s1 where 1: "handleMouseMove s [[27, 1, 0]] = Inr s1" and inv1: "demoInv s1"
    and st1: "serverStatus s1 = serverStatus demo"
    by (auto simp: demo_paths_Suc st)
  from inv_hover_resolved_server [OF inv1, of 0 1 "[27, 2, 0]" "[]"]
  obtain s2 where 2: "handleMouseMove s1 [[27, 2, 0]] = Inr s2" and inv2: "demoInv s2"
    by (auto simp: demo_paths_Suc st1)
  from inv_hover_none [OF inv2]
  obtain s3 where 3: "handleMouseMove s2 [] = Inr s3" by auto
  from 1 2 3 have moves: "pointerMoves s [[[27, 1, 0]], [[27, 2, 0]], []] = Inr s3" by simp
  from selection_undisturbed_by_hover [OF moves] sel w
  have "selectedServer s3 = Some [27, 1, 0]" "wireframeAt s3 [27, 1, 0] = Some True"
    by simp_all
  with click sel w moves show ?thesis by blast
qed





section \<open>The claim about the indicator lights\<close>

text \<open>
  C10: after \<open>update\<close>, the indicator light of every registered server that has a
  record shows the colour of the status of that record: 0x00ff00 for \<open>normal\<close>,
  0xffff00 for \<open>warning\<close>, 0xff0000 for \<open>error\<close>; the type of the status has no other
  value. The server mesh is registered under one identifier only and its first child
  has a material.
\<close>

theorem update_light_color:
  assumes "fst (update rnd i s) = Inr s'"
    and "(k, m) \<in> set (servers_dc s)" "distinct (map snd (servers_dc s))"
    and "fst (getServerData (serverStatus s') k) = Some d"
    and "lookup (scene s) m = Some n" "children n \<noteq> []" "materials s (m @ [0]) \<noteq> None"
  shows "map_option color (materials s' (m @ [0])) = Some (Some (light_color (status d))) \<and>
    light_color (status d) =
      (case status d of Normal \<Rightarrow> 65280 | Warning \<Rightarrow> 16776960 | Error \<Rightarrow> 16711680)"
  using update_light_lemma [OF assms] by (simp add: light_color_def)

theorem update_light_color_witness:
  "\<exists>s'. fst (update (constant_rng (19 / 20)) 135 demo) = Inr s' \<and>
     fst (getServerData (serverStatus s') ''rack0-server0'') =
       Some \<lparr> server_id = ''rack0-server0'', temperature = 449 / 10, cpuUsage = 163 / 2,
              memoryUsage = 319 / 4, status = Error \<rparr> \<and>
     map_option color (materials s' [27, 1, 0, 0]) = Some (Some 16711680)"
proof -
  let ?n = "Obj Mesh (emptyUserData\<lparr> ud_id := Some (serverId 0 0) \<rparr>) (Some createHeatmapMaterial)
          [Obj Mesh emptyUserData (Some (colorMaterial 65280 1)) []]"
  let ?d = "\<lparr> server_id = ''rack0-server0'', temperature = 449 / 10, cpuUsage = 163 / 2,
              memoryUsage = 319 / 4, status = Error \<rparr>"
  from demo_update_ok obtain s' where run: "fst (update (constant_rng (19 / 20)) 135 demo) = Inr s'"
    by blast
  then have "forEachMesh (servers_dc demo)
      (demo\<lparr> serverStatus := fst (updateServerStatus (constant_rng (19 / 20)) 135 (serverStatus demo)) \<rparr>) = Inr s'"
    by (simp add: update_def case_prod_beta)
  from forEachMesh_frame [OF this]
  have "serverStatus s' = fst (updateServerStatus (constant_rng (19 / 20)) 135 (serverStatus demo))"
    by simp
  then have d: "fst (getServerData (serverStatus s') ''rack0-server0'') = Some ?d"
    by (simp add: demo_after_tick)
  have "map_option color (materials s' ([27, 1, 0] @ [0])) = Some (Some (light_color (status ?d))) \<and>
    light_color (status ?d) =
      (case status ?d of Normal \<Rightarrow> 65280 | Warning \<Rightarrow> 16776960 | Error \<Rightarrow> 16711680)"
    by (rule update_light_color [OF run demo_registered_first demo_meshes_distinct d, where n = ?n])
      (simp_all add: demo_paths_Suc del: lookup.simps)
  with run d show ?thesis by auto
qed

end
